theory Spec2Isabelle
  imports Main
begin

unbundle bit_operations_syntax

section \<open>The LS-8 emulator: machine state\<close>

text \<open>
  The emulator is the Python class \<open>CPU\<close> of \<open>cpu.py\<close>. Python integers are unbounded, so
  every value is an \<open>int\<close>; the two Python lists \<open>ram\<close> and \<open>reg\<close> are \<open>int list\<close>s.
  Everything printed is collected in \<open>stdout\<close> as a list of code points.
  A raised exception (an \<open>exit\<close> is the exception \<open>SystemExit\<close>) is a value, together with
  the machine state reached when it was raised.
\<close>

record cpu =
  pc :: int
  ir :: int
  fl :: int
  ram :: "int list"
  reg :: "int list"
  interrupts_enabled :: bool
  stdout :: "int list"

datatype error = IndexError | ValueError | TypeError | SystemExit "int option"

type_synonym 'a result = "(error \<times> cpu) + 'a"

definition rbind :: "'a result \<Rightarrow> ('a \<Rightarrow> 'b result) \<Rightarrow> 'b result" where
  "rbind m f = (case m of Inl e \<Rightarrow> Inl e | Inr x \<Rightarrow> f x)"

definition exit_status :: "error \<Rightarrow> int" where
  \<comment> \<open>the status of the host process: \<open>exit()\<close> is status 0, an uncaught exception status 1\<close>
  "exit_status e = (case e of SystemExit None \<Rightarrow> 0 | SystemExit (Some n) \<Rightarrow> n | _ \<Rightarrow> 1)"

definition imr :: int where "imr = 5"
definition isr :: int where "isr = 6"
definition spr :: int where "spr = 7"

definition ivt :: "int list" where
  "ivt = [0xF8, 0xF9, 0xFA, 0xFB, 0xFC, 0xFD, 0xFE, 0xFF]"

definition timer_interrupt_bit :: nat where "timer_interrupt_bit = 0"

definition CPU_init :: cpu where
  "CPU_init = \<lparr> pc = 0, ir = 0, fl = 0, ram = replicate 256 0,
                reg = (replicate 8 0)[7 := 0xF4], interrupts_enabled = True, stdout = [] \<rparr>"

subsection \<open>Python list subscripts\<close>

text \<open>
  \<open>xs[i]\<close> counts a negative \<open>i\<close> from the end and raises \<open>IndexError\<close> outside
  \<open>-len(xs) \<le> i < len(xs)\<close>.
\<close>

definition py_index :: "nat \<Rightarrow> int \<Rightarrow> nat option" where
  "py_index n i =
     (if 0 \<le> i \<and> i < int n then Some (nat i)
      else if - int n \<le> i \<and> i < 0 then Some (nat (int n + i))
      else None)"

definition ram_get :: "cpu \<Rightarrow> int \<Rightarrow> int result" where
  "ram_get s i = (case py_index (length (ram s)) i of
                    None \<Rightarrow> Inl (IndexError, s)
                  | Some k \<Rightarrow> Inr (ram s ! k))"

definition ram_set :: "cpu \<Rightarrow> int \<Rightarrow> int \<Rightarrow> cpu result" where
  "ram_set s i v = (case py_index (length (ram s)) i of
                      None \<Rightarrow> Inl (IndexError, s)
                    | Some k \<Rightarrow> Inr (s\<lparr>ram := (ram s)[k := v]\<rparr>))"

definition reg_get :: "cpu \<Rightarrow> int \<Rightarrow> int result" where
  "reg_get s i = (case py_index (length (reg s)) i of
                    None \<Rightarrow> Inl (IndexError, s)
                  | Some k \<Rightarrow> Inr (reg s ! k))"

definition reg_set :: "cpu \<Rightarrow> int \<Rightarrow> int \<Rightarrow> cpu result" where
  "reg_set s i v = (case py_index (length (reg s)) i of
                      None \<Rightarrow> Inl (IndexError, s)
                    | Some k \<Rightarrow> Inr (s\<lparr>reg := (reg s)[k := v]\<rparr>))"

subsection \<open>Printing\<close>

definition codes :: "string \<Rightarrow> int list" where
  "codes str = map of_char str"

definition py_print :: "cpu \<Rightarrow> int list \<Rightarrow> bool \<Rightarrow> cpu" where
  \<comment> \<open>\<open>print(txt)\<close> when the flag holds, \<open>print(txt, end="")\<close> otherwise\<close>
  "py_print s txt newline = s\<lparr>stdout := stdout s @ txt @ (if newline then [10] else [])\<rparr>"

definition chr :: "cpu \<Rightarrow> int \<Rightarrow> int result" where
  "chr s n = (if 0 \<le> n \<and> n < 0x110000 then Inr n else Inl (ValueError, s))"

definition digit_char :: "nat \<Rightarrow> char" where
  "digit_char d = (''0123456789ABCDEF'') ! d"

function digits_of :: "nat \<Rightarrow> nat \<Rightarrow> string" where
  "digits_of b n =
     (if b < 2 \<or> n < b then [digit_char n]
      else digits_of b (n div b) @ [digit_char (n mod b)])"
  by pat_completeness auto
termination
  by (relation "measure snd") auto

definition str_int :: "int \<Rightarrow> int list" where
  \<comment> \<open>\<open>str(n)\<close>\<close>
  "str_int n = (if n < 0 then codes (CHR ''-'' # digits_of 10 (nat (- n)))
                else codes (digits_of 10 (nat n)))"

definition fmt_02X :: "int \<Rightarrow> int list" where
  \<comment> \<open>\<open>"%02X" % n\<close>: upper-case hexadecimal, zero-padded to two characters, sign included\<close>
  "fmt_02X n =
     (if n < 0 then codes (CHR ''-'' # digits_of 16 (nat (- n)))
      else if n < 16 then codes (CHR ''0'' # digits_of 16 (nat n))
      else codes (digits_of 16 (nat n)))"

subsection \<open>Bit helpers and operand fetch\<close>

definition set_nth_bit :: "int \<Rightarrow> nat \<Rightarrow> int" where
  "set_nth_bit b n = b OR push_bit n 1"

definition unset_nth_bit :: "int \<Rightarrow> nat \<Rightarrow> int" where
  "unset_nth_bit b n = b AND NOT (push_bit n 1)"

definition operand_a :: "cpu \<Rightarrow> int result" where
  "operand_a s = ram_get s (pc s + 1)"

definition operand_b :: "cpu \<Rightarrow> int result" where
  "operand_b s = ram_get s (pc s + 2)"

definition raise_interrupt :: "cpu \<Rightarrow> nat \<Rightarrow> cpu result" where
  "raise_interrupt s i =
     rbind (reg_get s isr) (\<lambda>v. reg_set s isr (set_nth_bit v i))"

definition ram_read :: "cpu \<Rightarrow> int \<Rightarrow> int result" where
  "ram_read s mar = ram_get s mar"

definition ram_write :: "cpu \<Rightarrow> int \<Rightarrow> int \<Rightarrow> cpu result" where
  "ram_write s mar mdr = ram_set s mar mdr"


section \<open>Instruction definitions\<close>

definition NOP :: "cpu \<Rightarrow> cpu result" where
  "NOP s = Inr s"

definition HLT :: "cpu \<Rightarrow> cpu result" where
  "HLT s = Inl (SystemExit None, s)"

definition PRA :: "cpu \<Rightarrow> int \<Rightarrow> cpu result" where
  "PRA s r = rbind (reg_get s r) (\<lambda>v. rbind (chr s v) (\<lambda>c. Inr (py_print s [c] True)))"

fun PRM_loop :: "cpu \<Rightarrow> int list \<Rightarrow> int list \<Rightarrow> int list result" where
  "PRM_loop s string [] = Inr string"
| "PRM_loop s string (char_addr # rest) =
     rbind (ram_get s char_addr) (\<lambda>v. rbind (chr s v) (\<lambda>c. PRM_loop s (string @ [c]) rest))"

definition PRM :: "cpu \<Rightarrow> int \<Rightarrow> int \<Rightarrow> cpu result" where
  \<comment> \<open>\<open>range(reg[ra], reg[rb] + 1)\<close> is the list \<open>[reg[ra]..reg[rb]]\<close>\<close>
  "PRM s ra rb =
     rbind (reg_get s ra) (\<lambda>a. rbind (reg_get s rb) (\<lambda>b.
       rbind (PRM_loop s [] [a..b]) (\<lambda>string. Inr (py_print s string True))))"

definition PRN :: "cpu \<Rightarrow> int \<Rightarrow> cpu result" where
  "PRN s r = rbind (reg_get s r) (\<lambda>v. Inr (py_print s (str_int v) True))"

definition LD :: "cpu \<Rightarrow> int \<Rightarrow> int \<Rightarrow> cpu result" where
  "LD s ra rb = rbind (reg_get s rb) (\<lambda>addr. rbind (ram_get s addr) (\<lambda>v. reg_set s ra v))"

definition LDI :: "cpu \<Rightarrow> int \<Rightarrow> int \<Rightarrow> cpu result" where
  "LDI s r i = reg_set s r (0xFF AND i)"

definition ST :: "cpu \<Rightarrow> int \<Rightarrow> int \<Rightarrow> cpu result" where
  "ST s ra rb = rbind (reg_get s rb) (\<lambda>v. rbind (reg_get s ra) (\<lambda>addr. ram_set s addr v))"

definition PUSH :: "cpu \<Rightarrow> int option \<Rightarrow> int option \<Rightarrow> cpu result" where
  \<comment> \<open>\<open>_PUSH(r, value=None)\<close>: the register is \<open>None\<close> when a value is passed directly\<close>
  "PUSH s r val =
     rbind (reg_get s spr) (\<lambda>sp.
     rbind (if sp = 0 then reg_set s spr 0xFF else reg_set s spr (sp - 1)) (\<lambda>s1.
       case val of
         Some v \<Rightarrow> rbind (reg_get s1 spr) (\<lambda>sp1. ram_set s1 sp1 v)
       | None \<Rightarrow>
           (case r of
              None \<Rightarrow> Inl (TypeError, s1)
            | Some r' \<Rightarrow>
                rbind (reg_get s1 r') (\<lambda>v. rbind (reg_get s1 spr) (\<lambda>sp1. ram_set s1 sp1 v)))))"

definition POP :: "cpu \<Rightarrow> int option \<Rightarrow> bool \<Rightarrow> (int option \<times> cpu) result" where
  \<comment> \<open>\<open>_POP(r, ret=False)\<close>: the returned pair is the Python return value and the new state\<close>
  "POP s r ret =
     rbind (reg_get s spr) (\<lambda>sp.
     rbind (if sp = 0xFF then reg_set s spr 0 else reg_set s spr (sp + 1)) (\<lambda>s1.
       if ret then rbind (ram_get s1 sp) (\<lambda>v. Inr (Some v, s1))
       else rbind (ram_get s1 sp) (\<lambda>v.
              case r of
                None \<Rightarrow> Inl (TypeError, s1)
              | Some r' \<Rightarrow> rbind (reg_set s1 r' v) (\<lambda>s2. Inr (None, s2)))))"

definition CALL :: "cpu \<Rightarrow> int \<Rightarrow> cpu result" where
  "CALL s r =
     rbind (reg_get s spr) (\<lambda>sp.
     rbind (reg_set s spr (sp - 1)) (\<lambda>s1.
     rbind (reg_get s1 spr) (\<lambda>sp1.
     rbind (ram_set s1 sp1 (pc s1 + 2)) (\<lambda>s2.
     rbind (reg_get s2 r) (\<lambda>target. Inr (s2\<lparr>pc := target\<rparr>))))))"

definition RET :: "cpu \<Rightarrow> cpu result" where
  "RET s =
     rbind (reg_get s spr) (\<lambda>sp.
     rbind (ram_get s sp) (\<lambda>v.
       let s1 = s\<lparr>pc := v\<rparr> in
       rbind (reg_get s1 spr) (\<lambda>sp1. reg_set s1 spr (sp1 + 1))))"

definition INT_instr :: "cpu \<Rightarrow> int \<Rightarrow> cpu result" where
  \<comment> \<open>\<open>_INT\<close>\<close>
  "INT_instr s r = rbind (reg_get s r) (\<lambda>v. reg_set s isr (set_nth_bit v 1))"

text \<open>
  With \<open>ret=True\<close>, \<open>_POP\<close> returns \<open>ram[sp]\<close>, never \<open>None\<close>: the \<open>None\<close> branches below are
  not reached (lemma \<open>POP_ret_Some\<close>).
\<close>

fun IRET_loop :: "cpu \<Rightarrow> int list \<Rightarrow> cpu result" where
  "IRET_loop s [] = Inr s"
| "IRET_loop s (r # rest) =
     rbind (POP s None True) (\<lambda>(v, s1).
       case v of
         None \<Rightarrow> Inl (TypeError, s1)
       | Some x \<Rightarrow> rbind (reg_set s1 r x) (\<lambda>s2. IRET_loop s2 rest))"

definition IRET :: "cpu \<Rightarrow> cpu result" where
  \<comment> \<open>\<open>range(6, -1, -1)\<close> is \<open>6, 5, 4, 3, 2, 1, 0\<close>\<close>
  "IRET s =
     rbind (IRET_loop s [6, 5, 4, 3, 2, 1, 0]) (\<lambda>s1.
     rbind (POP s1 None True) (\<lambda>(v, s2).
       case v of
         None \<Rightarrow> Inl (TypeError, s2)
       | Some f \<Rightarrow>
           rbind (POP (s2\<lparr>fl := f\<rparr>) None True) (\<lambda>(w, s3).
             case w of
               None \<Rightarrow> Inl (TypeError, s3)
             | Some p \<Rightarrow> Inr (s3\<lparr>pc := p, interrupts_enabled := True\<rparr>))))"

definition JMP :: "cpu \<Rightarrow> int \<Rightarrow> cpu result" where
  "JMP s r = rbind (reg_get s r) (\<lambda>v. Inr (s\<lparr>pc := v\<rparr>))"

definition JLT :: "cpu \<Rightarrow> int \<Rightarrow> cpu result" where
  "JLT s r = (if fl s AND 0b00000100 \<noteq> 0 then rbind (reg_get s r) (\<lambda>v. Inr (s\<lparr>pc := v\<rparr>))
              else Inr (s\<lparr>pc := pc s + 2\<rparr>))"

definition JGT :: "cpu \<Rightarrow> int \<Rightarrow> cpu result" where
  "JGT s r = (if fl s AND 0b00000010 \<noteq> 0 then rbind (reg_get s r) (\<lambda>v. Inr (s\<lparr>pc := v\<rparr>))
              else Inr (s\<lparr>pc := pc s + 2\<rparr>))"

definition JEQ :: "cpu \<Rightarrow> int \<Rightarrow> cpu result" where
  "JEQ s r = (if fl s AND 0b00000001 \<noteq> 0 then rbind (reg_get s r) (\<lambda>v. Inr (s\<lparr>pc := v\<rparr>))
              else Inr (s\<lparr>pc := pc s + 2\<rparr>))"

definition JLE :: "cpu \<Rightarrow> int \<Rightarrow> cpu result" where
  "JLE s r = (if fl s AND 0b00000101 \<noteq> 0 then rbind (reg_get s r) (\<lambda>v. Inr (s\<lparr>pc := v\<rparr>))
              else Inr (s\<lparr>pc := pc s + 2\<rparr>))"

definition JGE :: "cpu \<Rightarrow> int \<Rightarrow> cpu result" where
  "JGE s r = (if fl s AND 0b00000011 \<noteq> 0 then rbind (reg_get s r) (\<lambda>v. Inr (s\<lparr>pc := v\<rparr>))
              else Inr (s\<lparr>pc := pc s + 2\<rparr>))"

definition JNE :: "cpu \<Rightarrow> int \<Rightarrow> cpu result" where
  "JNE s r = (if fl s XOR 0b00000001 \<noteq> 0 then rbind (reg_get s r) (\<lambda>v. Inr (s\<lparr>pc := v\<rparr>))
              else Inr (s\<lparr>pc := pc s + 2\<rparr>))"

section \<open>ALU instruction definitions\<close>

definition ALU_ADD :: "cpu \<Rightarrow> int \<Rightarrow> int \<Rightarrow> cpu result" where
  "ALU_ADD s ra rb =
     rbind (reg_get s ra) (\<lambda>a. rbind (reg_get s rb) (\<lambda>b. reg_set s ra ((a + b) AND 0xFF)))"

definition ALU_ADDi :: "cpu \<Rightarrow> int \<Rightarrow> int \<Rightarrow> cpu result" where
  "ALU_ADDi s r i = rbind (reg_get s r) (\<lambda>a. reg_set s r ((a + i) AND 0xFF))"

definition ALU_SUB :: "cpu \<Rightarrow> int \<Rightarrow> int \<Rightarrow> cpu result" where
  "ALU_SUB s ra rb =
     rbind (reg_get s ra) (\<lambda>a. rbind (reg_get s rb) (\<lambda>b. reg_set s ra ((a - b) AND 0xFF)))"

definition ALU_MUL :: "cpu \<Rightarrow> int \<Rightarrow> int \<Rightarrow> cpu result" where
  "ALU_MUL s ra rb =
     rbind (reg_get s ra) (\<lambda>a. rbind (reg_get s rb) (\<lambda>b. reg_set s ra ((a * b) AND 0xFF)))"

definition ALU_DIV :: "cpu \<Rightarrow> int \<Rightarrow> int \<Rightarrow> cpu result" where
  "ALU_DIV s ra rb =
     rbind (reg_get s rb) (\<lambda>d.
       if d = 0 then Inl (SystemExit None, py_print s (codes ''Cannot divide by 0!'') True)
       else rbind (reg_get s ra) (\<lambda>a. rbind (reg_get s rb) (\<lambda>b. reg_set s ra (a div b))))"

definition ALU_MOD :: "cpu \<Rightarrow> int \<Rightarrow> int \<Rightarrow> cpu result" where
  "ALU_MOD s ra rb =
     rbind (reg_get s rb) (\<lambda>d.
       if d = 0 then Inl (SystemExit None, py_print s (codes ''Cannot divide by 0!'') True)
       else rbind (reg_get s ra) (\<lambda>a. rbind (reg_get s rb) (\<lambda>b. reg_set s ra (a mod b))))"

definition ALU_INC :: "cpu \<Rightarrow> int \<Rightarrow> cpu result" where
  "ALU_INC s r = rbind (reg_get s r) (\<lambda>a. reg_set s r ((a + 1) AND 0xFF))"

definition ALU_DEC :: "cpu \<Rightarrow> int \<Rightarrow> cpu result" where
  "ALU_DEC s r = rbind (reg_get s r) (\<lambda>a. reg_set s r ((a - 1) AND 0xFF))"

definition ALU_AND :: "cpu \<Rightarrow> int \<Rightarrow> int \<Rightarrow> cpu result" where
  "ALU_AND s ra rb =
     rbind (reg_get s ra) (\<lambda>a. rbind (reg_get s rb) (\<lambda>b. reg_set s ra (a AND b)))"

definition ALU_OR :: "cpu \<Rightarrow> int \<Rightarrow> int \<Rightarrow> cpu result" where
  "ALU_OR s ra rb =
     rbind (reg_get s ra) (\<lambda>a. rbind (reg_get s rb) (\<lambda>b. reg_set s ra (a OR b)))"

definition ALU_XOR :: "cpu \<Rightarrow> int \<Rightarrow> int \<Rightarrow> cpu result" where
  "ALU_XOR s ra rb =
     rbind (reg_get s ra) (\<lambda>a. rbind (reg_get s rb) (\<lambda>b. reg_set s ra (a XOR b)))"

definition ALU_NOT :: "cpu \<Rightarrow> int \<Rightarrow> cpu result" where
  "ALU_NOT s r = rbind (reg_get s r) (\<lambda>a. reg_set s r (NOT a))"

definition ALU_SHL :: "cpu \<Rightarrow> int \<Rightarrow> int \<Rightarrow> cpu result" where
  \<comment> \<open>a negative shift count raises \<open>ValueError\<close>\<close>
  "ALU_SHL s ra rb =
     rbind (reg_get s ra) (\<lambda>a. rbind (reg_get s rb) (\<lambda>b.
       if b < 0 then Inl (ValueError, s)
       else reg_set s ra (push_bit (nat b) a AND 0xFF)))"

definition ALU_SHR :: "cpu \<Rightarrow> int \<Rightarrow> int \<Rightarrow> cpu result" where
  "ALU_SHR s ra rb =
     rbind (reg_get s ra) (\<lambda>a. rbind (reg_get s rb) (\<lambda>b.
       if b < 0 then Inl (ValueError, s)
       else reg_set s ra (drop_bit (nat b) a)))"

definition ALU_CMP :: "cpu \<Rightarrow> int \<Rightarrow> int \<Rightarrow> cpu result" where
  "ALU_CMP s ra rb =
     rbind (reg_get s ra) (\<lambda>a. rbind (reg_get s rb) (\<lambda>b.
       if a > b then Inr (s\<lparr>fl := 0b00000010\<rparr>)
       else if a < b then Inr (s\<lparr>fl := 0b00000100\<rparr>)
       else Inr (s\<lparr>fl := 0b00000001\<rparr>)))"


section \<open>Dispatch tables\<close>

text \<open>
  The two dictionaries of closures. Each closure reads its operands (the properties
  \<open>_operand_a\<close>, \<open>_operand_b\<close>) when it is called, before the instruction body runs.
\<close>

definition instructions :: "int \<Rightarrow> (cpu \<Rightarrow> cpu result) option" where
  "instructions opc =
     (if opc = 0x00 then Some NOP
      else if opc = 0x01 then Some HLT
      else if opc = 0x48 then Some (\<lambda>s. rbind (operand_a s) (\<lambda>a. PRA s a))
      else if opc = 0x49 then
        Some (\<lambda>s. rbind (operand_a s) (\<lambda>a. rbind (operand_b s) (\<lambda>b. PRM s a b)))
      else if opc = 0x47 then Some (\<lambda>s. rbind (operand_a s) (\<lambda>a. PRN s a))
      else if opc = 0x83 then
        Some (\<lambda>s. rbind (operand_a s) (\<lambda>a. rbind (operand_b s) (\<lambda>b. LD s a b)))
      else if opc = 0x82 then
        Some (\<lambda>s. rbind (operand_a s) (\<lambda>a. rbind (operand_b s) (\<lambda>b. LDI s a b)))
      else if opc = 0x84 then
        Some (\<lambda>s. rbind (operand_a s) (\<lambda>a. rbind (operand_b s) (\<lambda>b. ST s a b)))
      else if opc = 0x45 then Some (\<lambda>s. rbind (operand_a s) (\<lambda>a. PUSH s (Some a) None))
      else if opc = 0x46 then
        Some (\<lambda>s. rbind (operand_a s) (\<lambda>a. rbind (POP s (Some a) False) (\<lambda>(v, s1). Inr s1)))
      else if opc = 0x50 then Some (\<lambda>s. rbind (operand_a s) (\<lambda>a. CALL s a))
      else if opc = 0x11 then Some RET
      else if opc = 0x52 then Some (\<lambda>s. rbind (operand_a s) (\<lambda>a. INT_instr s a))
      else if opc = 0x13 then Some IRET
      else if opc = 0x54 then Some (\<lambda>s. rbind (operand_a s) (\<lambda>a. JMP s a))
      else if opc = 0x58 then Some (\<lambda>s. rbind (operand_a s) (\<lambda>a. JLT s a))
      else if opc = 0x57 then Some (\<lambda>s. rbind (operand_a s) (\<lambda>a. JGT s a))
      else if opc = 0x55 then Some (\<lambda>s. rbind (operand_a s) (\<lambda>a. JEQ s a))
      else if opc = 0x59 then Some (\<lambda>s. rbind (operand_a s) (\<lambda>a. JLE s a))
      else if opc = 0x5A then Some (\<lambda>s. rbind (operand_a s) (\<lambda>a. JGE s a))
      else if opc = 0x56 then Some (\<lambda>s. rbind (operand_a s) (\<lambda>a. JNE s a))
      else None)"

definition alu_instructions :: "int \<Rightarrow> (cpu \<Rightarrow> cpu result) option" where
  "alu_instructions opc =
     (if opc = 0xA0 then
        Some (\<lambda>s. rbind (operand_a s) (\<lambda>a. rbind (operand_b s) (\<lambda>b. ALU_ADD s a b)))
      else if opc = 0xA6 then
        Some (\<lambda>s. rbind (operand_a s) (\<lambda>a. rbind (operand_b s) (\<lambda>b. ALU_ADDi s a b)))
      else if opc = 0xA1 then
        Some (\<lambda>s. rbind (operand_a s) (\<lambda>a. rbind (operand_b s) (\<lambda>b. ALU_SUB s a b)))
      else if opc = 0xA2 then
        Some (\<lambda>s. rbind (operand_a s) (\<lambda>a. rbind (operand_b s) (\<lambda>b. ALU_MUL s a b)))
      else if opc = 0xA3 then
        Some (\<lambda>s. rbind (operand_a s) (\<lambda>a. rbind (operand_b s) (\<lambda>b. ALU_DIV s a b)))
      else if opc = 0xA4 then
        Some (\<lambda>s. rbind (operand_a s) (\<lambda>a. rbind (operand_b s) (\<lambda>b. ALU_MOD s a b)))
      else if opc = 0x65 then Some (\<lambda>s. rbind (operand_a s) (\<lambda>a. ALU_INC s a))
      else if opc = 0x66 then Some (\<lambda>s. rbind (operand_a s) (\<lambda>a. ALU_DEC s a))
      else if opc = 0xAC then
        Some (\<lambda>s. rbind (operand_a s) (\<lambda>a. rbind (operand_b s) (\<lambda>b. ALU_SHL s a b)))
      else if opc = 0xAD then
        Some (\<lambda>s. rbind (operand_a s) (\<lambda>a. rbind (operand_b s) (\<lambda>b. ALU_SHR s a b)))
      else if opc = 0xA8 then
        Some (\<lambda>s. rbind (operand_a s) (\<lambda>a. rbind (operand_b s) (\<lambda>b. ALU_AND s a b)))
      else if opc = 0xAA then
        Some (\<lambda>s. rbind (operand_a s) (\<lambda>a. rbind (operand_b s) (\<lambda>b. ALU_OR s a b)))
      else if opc = 0xAB then
        Some (\<lambda>s. rbind (operand_a s) (\<lambda>a. rbind (operand_b s) (\<lambda>b. ALU_XOR s a b)))
      else if opc = 0x69 then Some (\<lambda>s. rbind (operand_a s) (\<lambda>a. ALU_NOT s a))
      else if opc = 0xA7 then
        Some (\<lambda>s. rbind (operand_a s) (\<lambda>a. rbind (operand_b s) (\<lambda>b. ALU_CMP s a b)))
      else None)"

section \<open>The control unit\<close>

fun trace_regs :: "cpu \<Rightarrow> int list \<Rightarrow> cpu result" where
  "trace_regs s [] = Inr s"
| "trace_regs s (i # rest) =
     rbind (reg_get s i) (\<lambda>v. trace_regs (py_print s (codes '' '' @ fmt_02X v) False) rest)"

definition trace :: "cpu \<Rightarrow> cpu result" where
  \<comment> \<open>the four values of the format tuple are read before anything is printed\<close>
  "trace s =
     rbind (ram_read s (pc s)) (\<lambda>b0.
     rbind (ram_read s (pc s + 1)) (\<lambda>b1.
     rbind (ram_read s (pc s + 2)) (\<lambda>b2.
     rbind (trace_regs
              (py_print s (codes ''TRACE: '' @ fmt_02X (pc s) @ codes '' | '' @ fmt_02X b0
                             @ codes '' '' @ fmt_02X b1 @ codes '' '' @ fmt_02X b2 @ codes '' |'')
                 False)
              [0, 1, 2, 3, 4, 5, 6, 7]) (\<lambda>s1.
     Inr (py_print s1 [] True)))))"

definition alu :: "cpu \<Rightarrow> int \<Rightarrow> cpu result" where
  "alu s opc =
     (case alu_instructions opc of
        Some execute \<Rightarrow> execute s
      | None \<Rightarrow>
          rbind (trace (py_print s (codes ''Unsupported ALU operation.'') True)) (\<lambda>s1.
            Inl (SystemExit (Some 1), s1)))"

fun push_regs :: "cpu \<Rightarrow> int list \<Rightarrow> cpu result" where
  "push_regs s [] = Inr s"
| "push_regs s (r # rest) =
     rbind (reg_get s r) (\<lambda>v. rbind (PUSH s None (Some v)) (\<lambda>s1. push_regs s1 rest))"

definition service :: "cpu \<Rightarrow> int \<Rightarrow> cpu result" where
  \<comment> \<open>the body of the \<open>if i_bit:\<close> branch of \<open>_handle_interrupts\<close>\<close>
  "service s i =
     (let s1 = s\<lparr>interrupts_enabled := False\<rparr> in
      rbind (reg_get s1 isr) (\<lambda>v.
      rbind (reg_set s1 isr (unset_nth_bit v (nat (i - 1)))) (\<lambda>s2.
      rbind (PUSH s2 None (Some (pc s2))) (\<lambda>s3.
      rbind (PUSH s3 None (Some (fl s3))) (\<lambda>s4.
      rbind (push_regs s4 [0, 1, 2, 3, 4, 5, 6]) (\<lambda>s5.
        case py_index (length ivt) (i - 1) of
          None \<Rightarrow> Inl (IndexError, s5)
        | Some k \<Rightarrow> rbind (ram_get s5 (ivt ! k)) (\<lambda>v. Inr (s5\<lparr>pc := v\<rparr>))))))))"

fun handle_interrupts_loop :: "cpu \<Rightarrow> int \<Rightarrow> int list \<Rightarrow> cpu result" where
  "handle_interrupts_loop s masked_interrupts [] = Inr s"
| "handle_interrupts_loop s masked_interrupts (i # rest) =
     (let i_bit = i AND masked_interrupts in
      if i_bit \<noteq> 0 then service s i
      else handle_interrupts_loop s masked_interrupts rest)"

definition handle_interrupts :: "cpu \<Rightarrow> cpu result" where
  \<comment> \<open>\<open>range(1, len(self.ivt) + 1)\<close> is \<open>1, 2, ..., 8\<close>\<close>
  "handle_interrupts s =
     rbind (reg_get s imr) (\<lambda>im. rbind (reg_get s isr) (\<lambda>is.
       handle_interrupts_loop s (im AND is) [1, 2, 3, 4, 5, 6, 7, 8]))"

definition read_instruction :: "cpu \<Rightarrow> cpu result" where
  "read_instruction s = rbind (ram_read s (pc s)) (\<lambda>v. Inr (s\<lparr>ir := v\<rparr>))"

definition execute_instruction :: "cpu \<Rightarrow> cpu result" where
  "execute_instruction s =
     (let instruction = ir s;
          operands = drop_bit 6 (0b11000000 AND ir s);
          is_alu_op = (0b00100000 AND ir s \<noteq> 0)
      in rbind
           (if is_alu_op then alu s instruction
            else (case instructions (ir s) of
                    Some execute \<Rightarrow> execute s
                  | None \<Rightarrow>
                      rbind (trace (py_print s (codes ''Unknown instruction encountered.'') True))
                        (\<lambda>s1. Inl (SystemExit (Some 1), s1))))
           (\<lambda>s1. let updates_pc = (0b00010000 AND ir s1 \<noteq> 0)
                 in if \<not> updates_pc then Inr (s1\<lparr>pc := pc s1 + (1 + operands)\<rparr>) else Inr s1))"

definition run_cycle :: "cpu \<Rightarrow> bool \<Rightarrow> bool \<Rightarrow> cpu result" where
  \<comment> \<open>one iteration of the \<open>while True\<close> loop of \<open>run\<close>; the second flag says whether the
      wall clock has advanced by more than a second since the timer was last reset\<close>
  "run_cycle s trace_cycle timer_elapsed =
     rbind (if interrupts_enabled s then handle_interrupts s else Inr s) (\<lambda>s1.
     rbind (read_instruction s1) (\<lambda>s2.
     rbind (if trace_cycle then trace s2 else Inr s2) (\<lambda>s3.
     rbind (execute_instruction s3) (\<lambda>s4.
       if timer_elapsed then raise_interrupt s4 timer_interrupt_bit else Inr s4))))"

fun run :: "cpu \<Rightarrow> bool \<Rightarrow> bool list \<Rightarrow> cpu result" where
  \<comment> \<open>the loop of \<open>run\<close>, for as many iterations as there are clock observations\<close>
  "run s trace_cycle [] = Inr s"
| "run s trace_cycle (timer_elapsed # rest) =
     rbind (run_cycle s trace_cycle timer_elapsed) (\<lambda>s1. run s1 trace_cycle rest)"


section \<open>The keyboard and the running system\<close>

text \<open>
  The keyboard of \<open>keyboard.py\<close> runs in a thread of its own: for each character read it
  stores \<open>ord(char)\<close> in \<open>ram[0xF4]\<close> and raises interrupt 1. The running system is a
  sequence of events, each an iteration of the loop of \<open>run\<close> (with its clock observation)
  or a character handled by the keyboard thread; the thread's two stores are taken together,
  between two iterations of the loop.
\<close>

datatype event = Cycle bool | Key nat

definition interrupt_bit :: nat where
  \<comment> \<open>\<open>Keyboard.interrupt_bit\<close>\<close>
  "interrupt_bit = 1"

definition Keyboard_poll :: "cpu \<Rightarrow> nat \<Rightarrow> cpu result" where
  \<comment> \<open>the body of \<open>Keyboard._poll\<close> for one character read, of code point \<open>c = ord(char)\<close>\<close>
  "Keyboard_poll s c = rbind (ram_set s 0xF4 (int c)) (\<lambda>s1. raise_interrupt s1 interrupt_bit)"

fun system_run :: "cpu \<Rightarrow> bool \<Rightarrow> event list \<Rightarrow> cpu result" where
  "system_run s trace_cycle [] = Inr s"
| "system_run s trace_cycle (Cycle timer_elapsed # rest) =
     rbind (run_cycle s trace_cycle timer_elapsed) (\<lambda>s1. system_run s1 trace_cycle rest)"
| "system_run s trace_cycle (Key c # rest) =
     rbind (Keyboard_poll s c) (\<lambda>s1. system_run s1 trace_cycle rest)"

section \<open>Well-formed states\<close>

definition byte :: "int \<Rightarrow> bool" where
  "byte x = (0 \<le> x \<and> x \<le> 255)"

definition well_formed :: "cpu \<Rightarrow> bool" where
  \<comment> \<open>the lists keep the lengths \<open>__init__\<close> gives them: no operation appends or deletes\<close>
  "well_formed s = (length (ram s) = 256 \<and> length (reg s) = 8)"

definition bytes_ok :: "cpu \<Rightarrow> bool" where
  "bytes_ok s = (list_all byte (ram s) \<and> list_all byte (reg s) \<and> byte (fl s) \<and> byte (ir s))"

definition keeps :: "cpu \<Rightarrow> cpu \<Rightarrow> bool" where
  \<comment> \<open>the step from \<open>s\<close> to \<open>s'\<close> keeps the byte ranges and leaves \<open>pc\<close> and \<open>ir\<close> alone\<close>
  "keeps s s' = (well_formed s' \<and> bytes_ok s' \<and> pc s' = pc s \<and> ir s' = ir s)"

text \<open>
  \<open>before_execute\<close> is the part of an iteration that precedes \<open>_execute_instruction\<close>. An
  iteration is regular when it does not dispatch an interrupt at \<open>pc = 256\<close> and the instruction
  it is about to execute is not \<open>NOT\<close>, not a \<open>CALL\<close> with \<open>SP = 0\<close> or at \<open>pc = 254\<close>, and not
  a \<open>RET\<close> with \<open>SP = 0xFF\<close>; a keyboard event is regular when the character is below 256.
\<close>

definition before_execute :: "cpu \<Rightarrow> bool \<Rightarrow> cpu result" where
  "before_execute s trace_cycle =
     rbind (if interrupts_enabled s then handle_interrupts s else Inr s) (\<lambda>s1.
     rbind (read_instruction s1) (\<lambda>s2.
       if trace_cycle then trace s2 else Inr s2))"

definition regular_cycle :: "cpu \<Rightarrow> bool \<Rightarrow> bool" where
  "regular_cycle s trace_cycle =
     ((pc s = 256 \<longrightarrow> (if interrupts_enabled s then handle_interrupts s else Inr s) = Inr s)
      \<and> (case before_execute s trace_cycle of
            Inl e \<Rightarrow> True
          | Inr s3 \<Rightarrow>
              ir s3 \<noteq> 0x69
              \<and> (ir s3 = 0x50 \<longrightarrow> reg s3 ! 7 \<noteq> 0 \<and> pc s3 \<noteq> 254)
              \<and> (ir s3 = 0x11 \<longrightarrow> reg s3 ! 7 \<noteq> 0xFF)))"

fun regular :: "cpu \<Rightarrow> bool \<Rightarrow> event list \<Rightarrow> bool" where
  "regular s trace_cycle [] = True"
| "regular s trace_cycle (Cycle timer_elapsed # rest) =
     (regular_cycle s trace_cycle
      \<and> (case run_cycle s trace_cycle timer_elapsed of
            Inl e \<Rightarrow> True
          | Inr s1 \<Rightarrow> regular s1 trace_cycle rest))"
| "regular s trace_cycle (Key c # rest) =
     (c \<le> 255
      \<and> (case Keyboard_poll s c of
            Inl e \<Rightarrow> True
          | Inr s1 \<Rightarrow> regular s1 trace_cycle rest))"

definition in_range :: "cpu \<Rightarrow> bool" where
  "in_range s = (well_formed s \<and> bytes_ok s \<and> 0 \<le> pc s \<and> pc s \<le> 256)"

definition loaded :: "int list \<Rightarrow> cpu" where
  \<comment> \<open>the machine after \<open>load\<close> of a file whose instruction lines are the given bytes\<close>
  "loaded program = CPU_init\<lparr>ram := program @ replicate (256 - length program) 0\<rparr>"

definition irq_example :: cpu where
  \<comment> \<open>interrupt 0 pending and enabled; its vector names address \<open>0x10\<close>, which holds \<open>IRET\<close>\<close>
  "irq_example = CPU_init\<lparr>reg := [0, 0, 0, 0, 0, 1, 1, 0xF4],
                           ram := (replicate 256 0)[0xF8 := 0x10, 0x10 := 0x13]\<rparr>"


section \<open>Basic lemmas\<close>

lemma rbind_simps [simp]: "rbind (Inr x) f = f x" "rbind (Inl e) f = Inl e"
  by (simp_all add: rbind_def)

lemma CPU_init_reg: "reg CPU_init = [0, 0, 0, 0, 0, 0, 0, 0xF4]"
  unfolding CPU_init_def by code_simp

lemma CPU_init_simps [simp]:
  "pc CPU_init = 0" "ir CPU_init = 0" "fl CPU_init = 0" "ram CPU_init = replicate 256 0"
  "interrupts_enabled CPU_init" "stdout CPU_init = []"
  by (simp_all add: CPU_init_def)

lemmas access_defs = reg_get_def reg_set_def ram_get_def ram_set_def py_index_def

lemmas cycle_defs = run_cycle_def handle_interrupts_def imr_def isr_def spr_def
  read_instruction_def ram_read_def execute_instruction_def instructions_def alu_def
  alu_instructions_def operand_a_def operand_b_def

section \<open>Compare and conditional jumps\<close>

text \<open>
  Claim C8. \<open>CMP ra, rb\<close> sets \<open>fl\<close> to exactly \<open>0b010\<close> when \<open>reg[ra] > reg[rb]\<close>, to exactly
  \<open>0b100\<close> when \<open>reg[ra] < reg[rb]\<close> and to exactly \<open>0b001\<close> when they are equal, and changes
  nothing else; so exactly one bit of \<open>fl\<close> is set afterwards: G (bit 1), L (bit 2) or
  E (bit 0) respectively.
\<close>

theorem ALU_CMP_flags:
  assumes "reg_get s ra = Inr a" and "reg_get s rb = Inr b"
  shows "ALU_CMP s ra rb =
           Inr (s\<lparr>fl := (if a > b then 0b010 else if a < b then 0b100 else 0b001)\<rparr>)
         \<and> (\<forall>n. bit (if a > b then 0b010 else if a < b then 0b100 else (0b001::int)) n
                  \<longleftrightarrow> n = (if a > b then 1 else if a < b then 2 else 0))"
proof -
  have b1: "bit (1::int) n \<longleftrightarrow> n = 0" for n
    by (simp add: bit_1_iff)
  have b2: "bit (2::int) n \<longleftrightarrow> n = 1" for n
    using bit_exp_iff [of 1 n, where ?'a = int] by auto
  have b4: "bit (4::int) n \<longleftrightarrow> n = 2" for n
    using bit_exp_iff [of 2 n, where ?'a = int] by auto
  show ?thesis
    using assms by (simp add: ALU_CMP_def b1 b2 b4)
qed

theorem ALU_CMP_flags_witness:
  "ALU_CMP (CPU_init\<lparr>reg := [7, 3, 0, 0, 0, 0, 0, 0xF4]\<rparr>) 0 1
     = Inr (CPU_init\<lparr>reg := [7, 3, 0, 0, 0, 0, 0, 0xF4], fl := 2\<rparr>)"
proof -
  have h: "reg_get (CPU_init\<lparr>reg := [7, 3, 0, 0, 0, 0, 0, 0xF4]\<rparr>) 0 = Inr 7"
    "reg_get (CPU_init\<lparr>reg := [7, 3, 0, 0, 0, 0, 0, 0xF4]\<rparr>) 1 = Inr 3"
    by (simp_all add: access_defs)
  show ?thesis
    using ALU_CMP_flags [OF h] by simp
qed

text \<open>
  Claim C9, at the flag byte \<open>0b011\<close> (E and G both set, as \<open>IRET\<close> can pop it): \<open>_JNE\<close>
  tests \<open>fl ^ 1\<close>, which is nonzero, and jumps to \<open>reg[r]\<close> although the E bit is set.
\<close>

theorem JNE_jumps_with_E_set:
  "bit (3::int) 0 \<and>
   JNE (CPU_init\<lparr>fl := 3, reg := [9, 0, 0, 0, 0, 0, 0, 0xF4]\<rparr>) 0
     = Inr (CPU_init\<lparr>fl := 3, reg := [9, 0, 0, 0, 0, 0, 0, 0xF4], pc := 9\<rparr>)"
  by (simp add: JNE_def access_defs CPU_init_def)

section \<open>Software interrupts\<close>

text \<open>
  Claim C5, at \<open>reg[0] = 0\<close> and \<open>IS = 0b100\<close>: \<open>INT 0\<close> stores \<open>reg[0] | 2\<close> in \<open>IS\<close>, which
  gives \<open>0b010\<close>; raising interrupt number \<open>reg[0] = 0\<close> would give \<open>IS | 1 = 0b101\<close>.
\<close>

theorem INT_sets_bit_1_of_operand:
  "INT_instr (CPU_init\<lparr>reg := [0, 0, 0, 0, 0, 0, 4, 0xF4]\<rparr>) 0
     = Inr (CPU_init\<lparr>reg := [0, 0, 0, 0, 0, 0, 2, 0xF4]\<rparr>)
   \<and> 4 OR push_bit (nat 0) 1 = (5::int)"
  by (simp add: INT_instr_def access_defs CPU_init_def isr_def set_nth_bit_def)

section \<open>Printing a memory range\<close>

text \<open>
  Claim C10. When \<open>reg[ra] > reg[rb]\<close>, \<open>PRM ra, rb\<close> prints the empty string and a newline,
  that is the single character \<open>\n\<close>, and leaves \<open>ram\<close>, every register (so \<open>SP\<close> too) and
  \<open>fl\<close> unchanged.
\<close>

theorem PRM_empty_range:
  assumes "reg_get s ra = Inr a" and "reg_get s rb = Inr b" and "a > b"
  shows "PRM s ra rb = Inr (s\<lparr>stdout := stdout s @ [10]\<rparr>)"
  using assms by (simp add: PRM_def py_print_def)

theorem PRM_empty_range_witness:
  "PRM (CPU_init\<lparr>reg := [7, 3, 0, 0, 0, 0, 0, 0xF4]\<rparr>) 0 1
     = Inr (CPU_init\<lparr>reg := [7, 3, 0, 0, 0, 0, 0, 0xF4], stdout := [10]\<rparr>)"
proof -
  have h: "reg_get (CPU_init\<lparr>reg := [7, 3, 0, 0, 0, 0, 0, 0xF4]\<rparr>) 0 = Inr 7"
    "reg_get (CPU_init\<lparr>reg := [7, 3, 0, 0, 0, 0, 0, 0xF4]\<rparr>) 1 = Inr 3"
    "(7::int) > 3"
    by (simp_all add: access_defs)
  show ?thesis
    using PRM_empty_range [OF h] by simp
qed

section \<open>Division by zero\<close>

text \<open>
  Claim C6, as the code has it. When \<open>reg[rb] = 0\<close>, \<open>DIV ra, rb\<close> and \<open>MOD ra, rb\<close> print the
  line \<open>Cannot divide by 0!\<close> and nothing else (no trace line), then call \<open>exit()\<close>, which
  ends the host process with status 0; no register and no other part of the machine
  state has changed when the process ends.
\<close>

theorem ALU_DIV_by_zero:
  assumes "reg_get s rb = Inr 0"
  shows "ALU_DIV s ra rb
           = Inl (SystemExit None, s\<lparr>stdout := stdout s @ codes ''Cannot divide by 0!'' @ [10]\<rparr>)
       \<and> ALU_MOD s ra rb
           = Inl (SystemExit None, s\<lparr>stdout := stdout s @ codes ''Cannot divide by 0!'' @ [10]\<rparr>)
       \<and> exit_status (SystemExit None) = 0"
  using assms by (simp add: ALU_DIV_def ALU_MOD_def py_print_def exit_status_def)

theorem ALU_DIV_by_zero_witness:
  "ALU_DIV (CPU_init\<lparr>reg := [1, 0, 0, 0, 0, 0, 0, 0xF4]\<rparr>) 0 1
     = Inl (SystemExit None,
            CPU_init\<lparr>reg := [1, 0, 0, 0, 0, 0, 0, 0xF4],
                     stdout := codes ''Cannot divide by 0!'' @ [10]\<rparr>)"
proof -
  have h: "reg_get (CPU_init\<lparr>reg := [1, 0, 0, 0, 0, 0, 0, 0xF4]\<rparr>) 1 = Inr 0"
    by (simp add: access_defs)
  show ?thesis
    using ALU_DIV_by_zero [OF h, of 0] by simp
qed

text \<open>
  The program \<open>LDI R0,1; LDI R1,0; DIV R0,R1\<close>: the process ends in the third cycle with
  exit status 0, and the diagnostic line is all that was printed.
\<close>

theorem div_by_zero_scenario:
  "run (loaded [0x82, 0, 1, 0x82, 1, 0, 0xA3, 0, 1]) False [False, False, False]
     = Inl (SystemExit None,
            (loaded [0x82, 0, 1, 0x82, 1, 0, 0xA3, 0, 1])
              \<lparr>pc := 6, ir := 0xA3, reg := [1, 0, 0, 0, 0, 0, 0, 0xF4],
               stdout := codes ''Cannot divide by 0!'' @ [10]\<rparr>)
   \<and> exit_status (SystemExit None) = 0"
  by (simp add: loaded_def CPU_init_reg cycle_defs access_defs LDI_def ALU_DIV_def
      py_print_def exit_status_def)

section \<open>Operand fetch and trace\<close>

lemma trace_regs_succeeds:
  "\<forall>r\<in>set rs. 0 \<le> r \<and> r < int (length (reg s)) \<Longrightarrow> \<exists>s'. trace_regs s rs = Inr s'"
proof (induction rs arbitrary: s)
  case Nil
  then show ?case by simp
next
  case (Cons r rs)
  then have "reg_get s r = Inr (reg s ! nat r)"
    by (simp add: access_defs)
  moreover have
    "\<exists>s'. trace_regs (py_print s (codes '' '' @ fmt_02X (reg s ! nat r)) False) rs = Inr s'"
    using Cons.prems by (intro Cons.IH) (simp add: py_print_def)
  ultimately show ?case by simp
qed

text \<open>
  Claim C7, as the code has it. Addresses are not reduced modulo 256: with \<open>pc\<close> in
  \<open>[0, 255]\<close> and a 256-cell \<open>ram\<close>, reading \<open>ram[pc + 1]\<close> succeeds exactly when
  \<open>pc \<le> 254\<close>, reading \<open>ram[pc + 2]\<close> exactly when \<open>pc \<le> 253\<close>, and the trace, which reads
  \<open>ram[pc]\<close>, \<open>ram[pc + 1]\<close> and \<open>ram[pc + 2]\<close>, succeeds when \<open>pc \<le> 253\<close>; beyond that the
  read raises \<open>IndexError\<close>.
\<close>

theorem operand_fetch_bounds:
  assumes "length (ram s) = 256" and "0 \<le> pc s" and "pc s \<le> 255"
  shows "operand_a s = (if pc s \<le> 254 then Inr (ram s ! nat (pc s + 1)) else Inl (IndexError, s))
       \<and> operand_b s = (if pc s \<le> 253 then Inr (ram s ! nat (pc s + 2)) else Inl (IndexError, s))
       \<and> (253 < pc s \<longrightarrow> trace s = Inl (IndexError, s))
       \<and> (pc s \<le> 253 \<and> length (reg s) = 8 \<longrightarrow> (\<exists>s'. trace s = Inr s'))"
proof -
  have a: "operand_a s = (if pc s \<le> 254 then Inr (ram s ! nat (pc s + 1)) else Inl (IndexError, s))"
    using assms by (simp add: operand_a_def access_defs)
  have b: "operand_b s = (if pc s \<le> 253 then Inr (ram s ! nat (pc s + 2)) else Inl (IndexError, s))"
    using assms by (simp add: operand_b_def access_defs)
  have c: "trace s = Inl (IndexError, s)" if "253 < pc s"
    using assms that by (simp add: trace_def ram_read_def access_defs)
  have d: "\<exists>s'. trace s = Inr s'" if "pc s \<le> 253" and len: "length (reg s) = 8"
  proof -
    let ?s1 = "py_print s (codes ''TRACE: '' @ fmt_02X (pc s) @ codes '' | ''
                 @ fmt_02X (ram s ! nat (pc s)) @ codes '' '' @ fmt_02X (ram s ! nat (pc s + 1))
                 @ codes '' '' @ fmt_02X (ram s ! nat (pc s + 2)) @ codes '' |'') False"
    have "\<exists>s'. trace_regs ?s1 [0, 1, 2, 3, 4, 5, 6, 7] = Inr s'"
      by (rule trace_regs_succeeds) (simp add: py_print_def len)
    then obtain s2 where "trace_regs ?s1 [0, 1, 2, 3, 4, 5, 6, 7] = Inr s2" ..
    then show ?thesis
      using assms that by (simp add: trace_def ram_read_def access_defs)
  qed
  from a b c d show ?thesis by blast
qed

theorem operand_fetch_bounds_witness:
  "operand_a (CPU_init\<lparr>pc := 253\<rparr>) = Inr 0 \<and> operand_b (CPU_init\<lparr>pc := 253\<rparr>) = Inr 0
   \<and> (\<exists>s'. trace (CPU_init\<lparr>pc := 253\<rparr>) = Inr s')
   \<and> operand_a (CPU_init\<lparr>pc := 254\<rparr>) = Inr 0
   \<and> operand_b (CPU_init\<lparr>pc := 254\<rparr>) = Inl (IndexError, CPU_init\<lparr>pc := 254\<rparr>)
   \<and> trace (CPU_init\<lparr>pc := 254\<rparr>) = Inl (IndexError, CPU_init\<lparr>pc := 254\<rparr>)"
proof -
  have h: "length (ram (CPU_init\<lparr>pc := 253\<rparr>)) = 256" "0 \<le> pc (CPU_init\<lparr>pc := 253\<rparr>)"
    "pc (CPU_init\<lparr>pc := 253\<rparr>) \<le> 255"
    by simp_all
  have h': "length (ram (CPU_init\<lparr>pc := 254\<rparr>)) = 256" "0 \<le> pc (CPU_init\<lparr>pc := 254\<rparr>)"
    "pc (CPU_init\<lparr>pc := 254\<rparr>) \<le> 255"
    by simp_all
  show ?thesis
    using operand_fetch_bounds [OF h] operand_fetch_bounds [OF h'] by (simp add: CPU_init_reg)
qed

text \<open>
  At \<open>pc = 255\<close> the read of \<open>ram[pc + 1]\<close>, and at \<open>pc = 254\<close> the reads of \<open>ram[pc + 2]\<close> by
  the operand fetch and by the trace, raise \<open>IndexError\<close>.
\<close>

theorem operand_fetch_at_255:
  "operand_a (CPU_init\<lparr>pc := 255\<rparr>) = Inl (IndexError, CPU_init\<lparr>pc := 255\<rparr>)
   \<and> operand_b (CPU_init\<lparr>pc := 254\<rparr>) = Inl (IndexError, CPU_init\<lparr>pc := 254\<rparr>)
   \<and> trace (CPU_init\<lparr>pc := 254\<rparr>) = Inl (IndexError, CPU_init\<lparr>pc := 254\<rparr>)"
  by (simp add: operand_a_def operand_b_def trace_def ram_read_def access_defs)

section \<open>The stack pointer\<close>

text \<open>
  Claim C4, at \<open>SP = 0x00\<close> for \<open>CALL\<close> and \<open>SP = 0xFF\<close> for \<open>RET\<close>. After
  \<open>LDI R7,0; LDI R0,9; CALL R0\<close> the stack pointer is \<open>-1\<close> (the return address 8 was
  written through the negative index, at \<open>ram[255]\<close>); after \<open>LDI R7,0xFF; RET\<close> it is 256.
  Neither is in \<open>[0, 255]\<close>: \<open>_CALL\<close> and \<open>_RET\<close> do not wrap as \<open>_PUSH\<close> and \<open>_POP\<close> do.
\<close>

theorem CALL_RET_leave_byte_range:
  "rbind (run (loaded [0x82, 7, 0, 0x82, 0, 9, 0x50, 0]) False [False, False, False])
     (\<lambda>s. Inr (reg s ! 7, ram s ! 255, pc s)) = Inr (- 1, 8, 9)
   \<and> rbind (run (loaded [0x82, 7, 0xFF, 0x11]) False [False, False])
     (\<lambda>s. Inr (reg s ! 7, pc s)) = Inr (256, 0)"
  by (simp add: loaded_def CPU_init_reg cycle_defs access_defs LDI_def CALL_def RET_def)

section \<open>Interrupt dispatch\<close>

text \<open>
  Claim C2, at \<open>IM = IS = 0b00000100\<close> (only interrupt 2 pending and enabled): the loop
  tests \<open>i & masked\<close> for \<open>i = 1, ..., 8\<close>, which first holds at \<open>i = 4\<close>, so the dispatcher
  clears bit 3 of \<open>IS\<close> (bit 2 stays set) and loads \<open>pc\<close> from \<open>ram[0xFB]\<close>, the vector of
  interrupt 3, not from \<open>ram[0xFA]\<close>. At \<open>IM = IS = 0b00010000\<close> no \<open>i\<close> in \<open>1, ..., 8\<close>
  passes the test and nothing is dispatched.
\<close>

theorem dispatch_wrong_vector:
  "rbind (handle_interrupts
            (CPU_init\<lparr>reg := [0, 0, 0, 0, 0, 4, 4, 0xF4],
                      ram := (replicate 256 0)[0xFA := 0x30, 0xFB := 0x40]\<rparr>))
     (\<lambda>s. Inr (pc s, reg s ! 6, interrupts_enabled s)) = Inr (0x40, 4, False)
   \<and> handle_interrupts (CPU_init\<lparr>reg := [0, 0, 0, 0, 0, 16, 16, 0xF4]\<rparr>)
       = Inr (CPU_init\<lparr>reg := [0, 0, 0, 0, 0, 16, 16, 0xF4]\<rparr>)"
  by (simp add: cycle_defs access_defs service_def PUSH_def unset_nth_bit_def ivt_def)


section \<open>The stack under the wrap policy\<close>

lemma byte_mod [simp]: "byte (x mod 256)"
  by (simp add: byte_def)

lemma addr_lt [simp]: "nat (x mod 256) < 256"
  by (simp add: nat_less_iff)

lemma mod_shift_eq:
  fixes a b :: int
  assumes "a mod 256 = b mod 256" and "\<bar>a - b\<bar> < 256"
  shows "a = b"
proof -
  from assms(1) have "(a - b) mod 256 = 0"
    by (simp add: mod_eq_dvd_iff)
  then have "256 dvd (a - b)" by presburger
  then obtain k where k: "a - b = 256 * k" ..
  with assms(2) have "k = 0" by auto
  with k show ?thesis by simp
qed

lemma addr_neq:
  "i \<noteq> j \<Longrightarrow> \<bar>i - j\<bar> < 256 \<Longrightarrow> nat ((h - i) mod 256) \<noteq> nat ((h - j) mod 256)"
proof
  assume ne: "i \<noteq> j" and small: "\<bar>i - j\<bar> < 256"
    and eq: "nat ((h - i) mod 256) = nat ((h - j) mod 256)"
  from eq have "(h - i) mod 256 = (h - j) mod 256"
    by (simp add: nat_eq_iff)
  moreover from small have "\<bar>(h - i) - (h - j)\<bar> < 256"
    by linarith
  ultimately have "h - i = h - j"
    by (rule mod_shift_eq)
  with ne show False by simp
qed

lemma list8: "length xs = 8 \<Longrightarrow> \<exists>a b c d e f g h. xs = [a, b, c, d, e, f, g, h]"
proof -
  assume "length xs = 8"
  then have "length xs = Suc (Suc (Suc (Suc (Suc (Suc (Suc (Suc 0)))))))"
    by simp
  then show ?thesis
    by (simp only: length_Suc_conv length_0_conv) blast
qed


lemma dec_mod: "byte p \<Longrightarrow> (if p = 0 then 255 else p - 1) = (p - 1) mod 256"
  by (auto simp: byte_def)

lemma inc_mod: "byte p \<Longrightarrow> (if p = 255 then 0 else p + 1) = (p + 1) mod 256"
  by (auto simp: byte_def)

lemma PUSH_value:
  assumes "well_formed s" and "byte (reg s ! 7)"
  shows "PUSH s None (Some v) =
           Inr (s\<lparr>reg := (reg s)[7 := (reg s ! 7 - 1) mod 256],
                  ram := (ram s)[nat ((reg s ! 7 - 1) mod 256) := v]\<rparr>)"
proof -
  let ?p = "reg s ! 7"
  have len: "length (reg s) = 8" "length (ram s) = 256"
    using assms(1) by (simp_all add: well_formed_def)
  have g: "reg_get s spr = Inr ?p"
    by (simp add: access_defs spr_def len)
  have st: "(if ?p = 0 then reg_set s spr 0xFF else reg_set s spr (?p - 1))
              = Inr (s\<lparr>reg := (reg s)[7 := (?p - 1) mod 256]\<rparr>)"
    using dec_mod [OF assms(2)] by (auto simp: access_defs spr_def len)
  show ?thesis
    unfolding PUSH_def g rbind_simps st
    by (simp add: access_defs spr_def len)
qed

lemma POP_value:
  assumes "well_formed s" and "byte (reg s ! 7)"
  shows "POP s None True =
           Inr (Some (ram s ! nat (reg s ! 7)), s\<lparr>reg := (reg s)[7 := (reg s ! 7 + 1) mod 256]\<rparr>)"
proof -
  let ?p = "reg s ! 7"
  have len: "length (reg s) = 8" "length (ram s) = 256"
    using assms(1) by (simp_all add: well_formed_def)
  have g: "reg_get s spr = Inr ?p"
    by (simp add: access_defs spr_def len)
  have st: "(if ?p = 0xFF then reg_set s spr 0 else reg_set s spr (?p + 1))
              = Inr (s\<lparr>reg := (reg s)[7 := (?p + 1) mod 256]\<rparr>)"
    using inc_mod [OF assms(2)] by (auto simp: access_defs spr_def len)
  show ?thesis
    unfolding POP_def g rbind_simps st
    using assms(2) by (simp add: access_defs len byte_def)
qed

lemma handle_interrupts_loop_find:
  "handle_interrupts_loop s m xs =
     (case find (\<lambda>i. i AND m \<noteq> 0) xs of None \<Rightarrow> Inr s | Some i \<Rightarrow> service s i)"
  by (induction xs) simp_all

lemma POP_ret_Some: "POP s r True = Inr (v, s') \<Longrightarrow> v \<noteq> None"
  by (auto simp: POP_def rbind_def split: sum.splits if_splits)

lemma ivt_entry: "1 \<le> i \<Longrightarrow> i \<le> 8 \<Longrightarrow> ivt ! nat (i - 1) = 0xF7 + i"
proof -
  assume "1 \<le> i" "i \<le> 8"
  then have "i = 1 \<or> i = 2 \<or> i = 3 \<or> i = 4 \<or> i = 5 \<or> i = 6 \<or> i = 7 \<or> i = 8"
    by arith
  then show ?thesis
    by (elim disjE) (simp_all add: ivt_def)
qed

lemma ivt_length: "length ivt = 8"
  by (simp add: ivt_def)

lemma push_regs_explicit:
  assumes "well_formed s" and "byte (reg s ! 7)" and regs: "reg s = [a, b, c, d, e, f, g, h]"
  shows "push_regs s [0, 1, 2, 3, 4, 5, 6] =
     Inr (s\<lparr>reg := [a, b, c, d, e, f, g, (h - 7) mod 256],
            ram := (ram s)[nat ((h - 1) mod 256) := a, nat ((h - 2) mod 256) := b,
                           nat ((h - 3) mod 256) := c, nat ((h - 4) mod 256) := d,
                           nat ((h - 5) mod 256) := e, nat ((h - 6) mod 256) := f,
                           nat ((h - 7) mod 256) := g]\<rparr>)"
  using assms
  by (simp add: PUSH_value well_formed_def access_defs mod_diff_left_eq)


lemma service_explicit:
  assumes "well_formed s" and "byte (reg s ! 7)" and regs: "reg s = [a, b, c, d, e, f, g, h]"
    and i: "1 \<le> i" "i \<le> 8"
  shows "service s i =
     Inr (s\<lparr>interrupts_enabled := False,
            reg := [a, b, c, d, e, f, unset_nth_bit g (nat (i - 1)), (h - 9) mod 256],
            ram := (ram s)[nat ((h - 1) mod 256) := pc s, nat ((h - 2) mod 256) := fl s,
                           nat ((h - 3) mod 256) := a, nat ((h - 4) mod 256) := b,
                           nat ((h - 5) mod 256) := c, nat ((h - 6) mod 256) := d,
                           nat ((h - 7) mod 256) := e, nat ((h - 8) mod 256) := f,
                           nat ((h - 9) mod 256) := unset_nth_bit g (nat (i - 1))],
            pc := ((ram s)[nat ((h - 1) mod 256) := pc s, nat ((h - 2) mod 256) := fl s,
                           nat ((h - 3) mod 256) := a, nat ((h - 4) mod 256) := b,
                           nat ((h - 5) mod 256) := c, nat ((h - 6) mod 256) := d,
                           nat ((h - 7) mod 256) := e, nat ((h - 8) mod 256) := f,
                           nat ((h - 9) mod 256) := unset_nth_bit g (nat (i - 1))])
                  ! nat (0xF7 + i)\<rparr>)"
  using assms
  by (simp add: service_def Let_def isr_def PUSH_value well_formed_def access_defs mod_diff_left_eq
      ivt_entry ivt_length)

lemma IRET_explicit:
  assumes "well_formed s" and regs: "reg s = [a, b, c, d, e, f, g, (h - 9) mod 256]"
    and mem: "ram s = m[nat ((h - 1) mod 256) := v1, nat ((h - 2) mod 256) := v2,
                        nat ((h - 3) mod 256) := v3, nat ((h - 4) mod 256) := v4,
                        nat ((h - 5) mod 256) := v5, nat ((h - 6) mod 256) := v6,
                        nat ((h - 7) mod 256) := v7, nat ((h - 8) mod 256) := v8,
                        nat ((h - 9) mod 256) := v9]"
  shows "IRET s = Inr (s\<lparr>reg := [v3, v4, v5, v6, v7, v8, v9, h mod 256], fl := v2, pc := v1,
                         interrupts_enabled := True\<rparr>)"
proof -
  have len: "length m = 256" "length (reg s) = 8"
    using assms(1) mem by (simp_all add: well_formed_def)
  have rd: "ram s ! nat ((h - 9) mod 256) = v9" "ram s ! nat ((h - 8) mod 256) = v8"
    "ram s ! nat ((h - 7) mod 256) = v7" "ram s ! nat ((h - 6) mod 256) = v6"
    "ram s ! nat ((h - 5) mod 256) = v5" "ram s ! nat ((h - 4) mod 256) = v4"
    "ram s ! nat ((h - 3) mod 256) = v3" "ram s ! nat ((h - 2) mod 256) = v2"
    "ram s ! nat ((h - 1) mod 256) = v1"
    unfolding mem by (simp_all add: len addr_neq)
  show ?thesis
    using assms(1) len
    by (simp add: IRET_def POP_value well_formed_def regs access_defs rd mod_add_left_eq)
qed

lemmas stack_defs = service_def PUSH_def POP_def IRET_def unset_nth_bit_def ivt_def

section \<open>Interrupt transparency\<close>

text \<open>
  Claim C1, as the code has it. Take a well-formed state with \<open>SP\<close> in \<open>[0, 255]\<close> and interrupts
  enabled, in which the dispatcher's loop first passes its test at index \<open>i\<close>, and let the
  cell at the new \<open>pc\<close> hold \<open>IRET\<close>. Then the cycle (dispatch, fetch, \<open>IRET\<close>) ends with
  \<open>pc\<close> and \<open>fl\<close> as before the dispatch, interrupts enabled again, and the registers as
  before the dispatch except \<open>reg[6]\<close>, in which the dispatcher has cleared bit \<open>i - 1\<close>: so
  \<open>reg[0..5]\<close> and \<open>SP\<close> are restored, and \<open>IS\<close> is not.
\<close>

theorem IRET_handler_transparent:
  assumes wf: "well_formed s" and sp: "byte (reg s ! 7)" and en: "interrupts_enabled s"
    and hit: "find (\<lambda>i. i AND (reg s ! 5 AND reg s ! 6) \<noteq> 0) [1, 2, 3, 4, 5, 6, 7, 8] = Some i"
    and disp: "handle_interrupts s = Inr s1"
    and handler: "ram_get s1 (pc s1) = Inr 0x13"
  shows "\<exists>s3. run_cycle s False False = Inr s3
            \<and> pc s3 = pc s \<and> fl s3 = fl s \<and> interrupts_enabled s3
            \<and> reg s3 = (reg s)[6 := unset_nth_bit (reg s ! 6) (nat (i - 1))]"
proof -
  from wf have len: "length (reg s) = 8" "length (ram s) = 256"
    by (simp_all add: well_formed_def)
  from list8 [OF len(1)] obtain a b c d e f g h where regs: "reg s = [a, b, c, d, e, f, g, h]"
    by blast
  from sp regs have h: "byte h" by simp
  then have hmod: "h mod 256 = h" by (simp add: byte_def)
  from hit have "i \<in> set [1, 2, 3, 4, 5, 6, 7, 8]"
    by (metis find_Some_iff nth_mem)
  then have i: "1 \<le> i" "i \<le> 8" by auto
  have "handle_interrupts s = service s i"
    using hit by (simp add: handle_interrupts_def access_defs imr_def isr_def len
        handle_interrupts_loop_find regs)
  with disp have s1: "service s i = Inr s1" by simp
  note ex = service_explicit [OF wf sp regs i, unfolded s1]
  from ex have s1_eq: "reg s1 = [a, b, c, d, e, f, unset_nth_bit g (nat (i - 1)), (h - 9) mod 256]"
    "ram s1 = (ram s)[nat ((h - 1) mod 256) := pc s, nat ((h - 2) mod 256) := fl s,
                           nat ((h - 3) mod 256) := a, nat ((h - 4) mod 256) := b,
                           nat ((h - 5) mod 256) := c, nat ((h - 6) mod 256) := d,
                           nat ((h - 7) mod 256) := e, nat ((h - 8) mod 256) := f,
                           nat ((h - 9) mod 256) := unset_nth_bit g (nat (i - 1))]"
    "\<not> interrupts_enabled s1" "stdout s1 = stdout s" "fl s1 = fl s"
    by simp_all
  have wf1: "well_formed (s1\<lparr>ir := 0x13\<rparr>)"
    using s1_eq len by (simp add: well_formed_def)
  have fetch: "read_instruction s1 = Inr (s1\<lparr>ir := 0x13\<rparr>)"
    using handler by (simp add: read_instruction_def ram_read_def)
  have iret: "IRET (s1\<lparr>ir := 0x13\<rparr>) =
      Inr (s1\<lparr>ir := 0x13, reg := [a, b, c, d, e, f, unset_nth_bit g (nat (i - 1)), h mod 256],
             fl := fl s, pc := pc s, interrupts_enabled := True\<rparr>)"
    using IRET_explicit [OF wf1, of a b c d e f "unset_nth_bit g (nat (i - 1))" h "ram s"
        "pc s" "fl s" a b c d e f "unset_nth_bit g (nat (i - 1))"] s1_eq
    by simp
  have exec: "execute_instruction (s1\<lparr>ir := 0x13\<rparr>) =
      Inr (s1\<lparr>ir := 0x13, reg := [a, b, c, d, e, f, unset_nth_bit g (nat (i - 1)), h],
             fl := fl s, pc := pc s, interrupts_enabled := True\<rparr>)"
    by (simp add: execute_instruction_def instructions_def iret hmod)
  show ?thesis
    using en by (simp add: run_cycle_def disp fetch exec regs)
qed

theorem IRET_handler_transparent_witness:
  "\<exists>s3. run_cycle irq_example False False = Inr s3
        \<and> pc s3 = 0 \<and> fl s3 = 0 \<and> interrupts_enabled s3
        \<and> reg s3 = [0, 0, 0, 0, 0, 1, 0, 0xF4]"
proof -
  have wf: "well_formed irq_example" and sp: "byte (reg irq_example ! 7)"
    and en: "interrupts_enabled irq_example"
    by (simp_all add: irq_example_def well_formed_def byte_def)
  have hit: "find (\<lambda>i. i AND (reg irq_example ! 5 AND reg irq_example ! 6) \<noteq> 0)
               [1, 2, 3, 4, 5, 6, 7, 8] = Some 1"
    by (simp add: irq_example_def)
  have "\<exists>s1. handle_interrupts irq_example = Inr s1 \<and> ram_get s1 (pc s1) = Inr 0x13"
    by (simp add: irq_example_def cycle_defs access_defs stack_defs)
  then obtain s1 where disp: "handle_interrupts irq_example = Inr s1"
    and handler: "ram_get s1 (pc s1) = Inr 0x13"
    by blast
  show ?thesis
    using IRET_handler_transparent [OF wf sp en hit disp handler]
    by (simp add: irq_example_def unset_nth_bit_def)
qed

text \<open>
  With interrupt 0 pending and enabled and a handler that is a single \<open>IRET\<close>, \<open>reg[6]\<close> is 1
  before the dispatch and 0 after the \<open>IRET\<close>.
\<close>

theorem IS_changed_by_dispatch:
  "rbind (run_cycle irq_example False False) (\<lambda>s. Inr (reg s ! 6, pc s, interrupts_enabled s))
     = Inr (0, 0, True)
   \<and> reg irq_example ! 6 = 1"
  by (simp add: irq_example_def cycle_defs access_defs stack_defs)


section \<open>Byte ranges\<close>

subsection \<open>Arithmetic on bytes\<close>

lemma rbind_InrE:
  assumes "rbind m f = Inr y"
  obtains x where "m = Inr x" and "f x = Inr y"
  using assms by (cases m) simp_all

lemma byte_and_255 [simp]: "byte (x AND 255)" "byte (255 AND x)"
proof -
  have "0 \<le> x AND 255" by simp
  moreover have "x AND 255 \<le> 255" by (rule AND_upper2) simp
  ultimately show "byte (x AND 255)" by (simp add: byte_def)
  then show "byte (255 AND x)" by (simp add: and.commute)
qed

lemma byte_and: "byte a \<Longrightarrow> byte b \<Longrightarrow> byte (a AND b)"
  unfolding byte_def using AND_upper1 [of a b] by (auto intro: order_trans)

lemma byte_lt: "byte a \<longleftrightarrow> 0 \<le> a \<and> a < 2 ^ 8"
  by (auto simp: byte_def)

lemma byte_or: "byte a \<Longrightarrow> byte b \<Longrightarrow> byte (a OR b)"
  unfolding byte_lt using OR_upper [of a 8 b] by simp

lemma byte_xor: "byte a \<Longrightarrow> byte b \<Longrightarrow> byte (a XOR b)"
  unfolding byte_lt using XOR_upper [of a 8 b] by simp

lemma byte_div: "byte a \<Longrightarrow> byte b \<Longrightarrow> byte (a div b)"
proof (cases "b = 0")
  case True
  then show ?thesis by (simp add: byte_def)
next
  case False
  assume a: "byte a" and b: "byte b"
  with False have pos: "0 < b" by (simp add: byte_def)
  from a have a0: "0 \<le> a" by (simp add: byte_def)
  have "a div b \<le> a div 1"
    using a0 pos by (intro zdiv_mono2) simp_all
  moreover have "0 \<le> a div b"
    using a0 pos by (simp add: pos_imp_zdiv_nonneg_iff)
  ultimately show ?thesis
    using a by (simp add: byte_def)
qed

lemma byte_mod': "byte a \<Longrightarrow> byte b \<Longrightarrow> b \<noteq> 0 \<Longrightarrow> byte (a mod b)"
  unfolding byte_def
  by (smt (verit) pos_mod_bound pos_mod_sign)

lemma byte_drop_bit: "byte a \<Longrightarrow> byte (drop_bit n a)"
  unfolding byte_def drop_bit_eq_div
  by (smt (verit) div_by_1 pos_imp_zdiv_nonneg_iff zdiv_mono2 zero_less_power one_le_power)

lemma byte_set_nth_bit: "byte a \<Longrightarrow> n < 8 \<Longrightarrow> byte (set_nth_bit a n)"
proof -
  assume a: "byte a" and n: "n < 8"
  have "(2::int) ^ n < 2 ^ 8" using n by (intro power_strict_increasing) simp_all
  then have "byte (push_bit n 1)" by (simp add: byte_lt push_bit_eq_mult)
  with a show ?thesis unfolding set_nth_bit_def by (rule byte_or)
qed

lemma byte_unset_nth_bit: "byte a \<Longrightarrow> byte (unset_nth_bit a n)"
  unfolding byte_def unset_nth_bit_def using AND_upper1 [of a "NOT (push_bit n 1)"]
  by (auto intro: order_trans)

subsection \<open>Instructions that keep the byte ranges\<close>

lemma py_index_lt: "py_index n i = Some k \<Longrightarrow> k < n"
  by (auto simp: py_index_def split: if_splits)

lemma list_all_nth: "list_all P xs \<Longrightarrow> k < length xs \<Longrightarrow> P (xs ! k)"
  by (simp add: list_all_length)

lemma list_all_update: "list_all P xs \<Longrightarrow> P v \<Longrightarrow> list_all P (xs[k := v])"
  by (auto simp: list_all_iff dest!: subsetD [OF set_update_subset_insert])

lemma reg_get_byte: "bytes_ok s \<Longrightarrow> reg_get s i = Inr v \<Longrightarrow> byte v"
  by (auto simp: reg_get_def bytes_ok_def split: option.splits
      dest: py_index_lt intro: list_all_nth)

lemma ram_get_byte: "bytes_ok s \<Longrightarrow> ram_get s i = Inr v \<Longrightarrow> byte v"
  by (auto simp: ram_get_def bytes_ok_def split: option.splits
      dest: py_index_lt intro: list_all_nth)

lemma reg_set_keeps:
  "reg_set s i v = Inr s' \<Longrightarrow> byte v \<Longrightarrow> well_formed s \<Longrightarrow> bytes_ok s \<Longrightarrow> keeps s s'"
  by (auto simp: reg_set_def keeps_def well_formed_def bytes_ok_def split: option.splits
      intro: list_all_update)

lemma ram_set_keeps:
  "ram_set s i v = Inr s' \<Longrightarrow> byte v \<Longrightarrow> well_formed s \<Longrightarrow> bytes_ok s \<Longrightarrow> keeps s s'"
  by (auto simp: ram_set_def keeps_def well_formed_def bytes_ok_def split: option.splits
      intro: list_all_update)

lemma keeps_refl: "well_formed s \<Longrightarrow> bytes_ok s \<Longrightarrow> keeps s s"
  by (simp add: keeps_def)

lemma keeps_trans: "keeps s s1 \<Longrightarrow> keeps s1 s2 \<Longrightarrow> keeps s s2"
  by (simp add: keeps_def)

lemma py_print_keeps: "well_formed s \<Longrightarrow> bytes_ok s \<Longrightarrow> keeps s (py_print s msg nl)"
  by (simp add: keeps_def py_print_def well_formed_def bytes_ok_def)

lemma binop_keeps:
  assumes f: "\<And>a b. byte a \<Longrightarrow> byte b \<Longrightarrow> byte (f a b)"
    and s: "well_formed s" "bytes_ok s"
    and run: "rbind (reg_get s ra) (\<lambda>a. rbind (reg_get s rb) (\<lambda>b. reg_set s ra (f a b))) = Inr s'"
  shows "keeps s s'"
proof -
  from run obtain a b where a: "reg_get s ra = Inr a" and b: "reg_get s rb = Inr b"
    and st: "reg_set s ra (f a b) = Inr s'"
    by (elim rbind_InrE)
  from a b s have "byte (f a b)"
    by (intro f reg_get_byte)
  with s st show ?thesis
    by (auto intro: reg_set_keeps)
qed

lemma unop_keeps:
  assumes f: "\<And>a. byte a \<Longrightarrow> byte (f a)"
    and s: "well_formed s" "bytes_ok s"
    and run: "rbind (reg_get s r) (\<lambda>a. reg_set s r' (f a)) = Inr s'"
  shows "keeps s s'"
proof -
  from run obtain a where a: "reg_get s r = Inr a" and st: "reg_set s r' (f a) = Inr s'"
    by (elim rbind_InrE)
  from a s have "byte (f a)"
    by (intro f reg_get_byte)
  with s st show ?thesis
    by (auto intro: reg_set_keeps)
qed

lemma ALU_ADD_keeps: "well_formed s \<Longrightarrow> bytes_ok s \<Longrightarrow> ALU_ADD s ra rb = Inr s' \<Longrightarrow> keeps s s'"
  by (rule binop_keeps [where f = "\<lambda>a b. (a + b) AND 0xFF"]) (simp_all add: ALU_ADD_def)

lemma ALU_SUB_keeps: "well_formed s \<Longrightarrow> bytes_ok s \<Longrightarrow> ALU_SUB s ra rb = Inr s' \<Longrightarrow> keeps s s'"
  by (rule binop_keeps [where f = "\<lambda>a b. (a - b) AND 0xFF"]) (simp_all add: ALU_SUB_def)

lemma ALU_MUL_keeps: "well_formed s \<Longrightarrow> bytes_ok s \<Longrightarrow> ALU_MUL s ra rb = Inr s' \<Longrightarrow> keeps s s'"
  by (rule binop_keeps [where f = "\<lambda>a b. (a * b) AND 0xFF"]) (simp_all add: ALU_MUL_def)

lemma ALU_AND_keeps: "well_formed s \<Longrightarrow> bytes_ok s \<Longrightarrow> ALU_AND s ra rb = Inr s' \<Longrightarrow> keeps s s'"
  by (rule binop_keeps [where f = "\<lambda>a b. a AND b"]) (simp_all add: ALU_AND_def byte_and)

lemma ALU_OR_keeps: "well_formed s \<Longrightarrow> bytes_ok s \<Longrightarrow> ALU_OR s ra rb = Inr s' \<Longrightarrow> keeps s s'"
  by (rule binop_keeps [where f = "\<lambda>a b. a OR b"]) (simp_all add: ALU_OR_def byte_or)

lemma ALU_XOR_keeps: "well_formed s \<Longrightarrow> bytes_ok s \<Longrightarrow> ALU_XOR s ra rb = Inr s' \<Longrightarrow> keeps s s'"
  by (rule binop_keeps [where f = "\<lambda>a b. a XOR b"]) (simp_all add: ALU_XOR_def byte_xor)

lemma ALU_INC_keeps: "well_formed s \<Longrightarrow> bytes_ok s \<Longrightarrow> ALU_INC s r = Inr s' \<Longrightarrow> keeps s s'"
  by (rule unop_keeps [where f = "\<lambda>a. (a + 1) AND 0xFF"]) (simp_all add: ALU_INC_def)

lemma ALU_DEC_keeps: "well_formed s \<Longrightarrow> bytes_ok s \<Longrightarrow> ALU_DEC s r = Inr s' \<Longrightarrow> keeps s s'"
  by (rule unop_keeps [where f = "\<lambda>a. (a - 1) AND 0xFF"]) (simp_all add: ALU_DEC_def)

lemma ALU_ADDi_keeps: "well_formed s \<Longrightarrow> bytes_ok s \<Longrightarrow> ALU_ADDi s r i = Inr s' \<Longrightarrow> keeps s s'"
  by (rule unop_keeps [where f = "\<lambda>a. (a + i) AND 0xFF"]) (simp_all add: ALU_ADDi_def)

lemma INT_instr_keeps: "well_formed s \<Longrightarrow> bytes_ok s \<Longrightarrow> INT_instr s r = Inr s' \<Longrightarrow> keeps s s'"
  by (rule unop_keeps [where f = "\<lambda>a. set_nth_bit a 1"])
    (simp_all add: INT_instr_def byte_set_nth_bit)

lemma LDI_keeps: "well_formed s \<Longrightarrow> bytes_ok s \<Longrightarrow> LDI s r i = Inr s' \<Longrightarrow> keeps s s'"
  unfolding LDI_def by (auto intro: reg_set_keeps)

lemma ALU_SHL_keeps: "well_formed s \<Longrightarrow> bytes_ok s \<Longrightarrow> ALU_SHL s ra rb = Inr s' \<Longrightarrow> keeps s s'"
  unfolding ALU_SHL_def
  by (elim rbind_InrE) (auto split: if_splits intro: reg_set_keeps)

lemma ALU_SHR_keeps: "well_formed s \<Longrightarrow> bytes_ok s \<Longrightarrow> ALU_SHR s ra rb = Inr s' \<Longrightarrow> keeps s s'"
  unfolding ALU_SHR_def
  by (elim rbind_InrE) (auto split: if_splits intro: reg_set_keeps byte_drop_bit reg_get_byte)

lemma ALU_DIV_keeps: "well_formed s \<Longrightarrow> bytes_ok s \<Longrightarrow> ALU_DIV s ra rb = Inr s' \<Longrightarrow> keeps s s'"
  unfolding ALU_DIV_def
  by (elim rbind_InrE) (auto split: if_splits elim!: rbind_InrE intro: reg_set_keeps byte_div reg_get_byte)

lemma ALU_MOD_keeps: "well_formed s \<Longrightarrow> bytes_ok s \<Longrightarrow> ALU_MOD s ra rb = Inr s' \<Longrightarrow> keeps s s'"
  unfolding ALU_MOD_def
  by (elim rbind_InrE) (auto split: if_splits elim!: rbind_InrE intro!: reg_set_keeps byte_mod' intro: reg_get_byte)

lemma ALU_CMP_keeps: "well_formed s \<Longrightarrow> bytes_ok s \<Longrightarrow> ALU_CMP s ra rb = Inr s' \<Longrightarrow> keeps s s'"
  unfolding ALU_CMP_def
  by (elim rbind_InrE) (auto split: if_splits simp: keeps_def well_formed_def bytes_ok_def byte_def)

lemma NOP_keeps: "well_formed s \<Longrightarrow> bytes_ok s \<Longrightarrow> NOP s = Inr s' \<Longrightarrow> keeps s s'"
  by (auto simp: NOP_def intro: keeps_refl)

lemma PRA_keeps: "well_formed s \<Longrightarrow> bytes_ok s \<Longrightarrow> PRA s r = Inr s' \<Longrightarrow> keeps s s'"
  unfolding PRA_def by (elim rbind_InrE) (auto intro: py_print_keeps)

lemma PRN_keeps: "well_formed s \<Longrightarrow> bytes_ok s \<Longrightarrow> PRN s r = Inr s' \<Longrightarrow> keeps s s'"
  unfolding PRN_def by (elim rbind_InrE) (auto intro: py_print_keeps)

lemma PRM_keeps: "well_formed s \<Longrightarrow> bytes_ok s \<Longrightarrow> PRM s ra rb = Inr s' \<Longrightarrow> keeps s s'"
  unfolding PRM_def by (elim rbind_InrE) (auto intro: py_print_keeps)

lemma LD_keeps: "well_formed s \<Longrightarrow> bytes_ok s \<Longrightarrow> LD s ra rb = Inr s' \<Longrightarrow> keeps s s'"
  unfolding LD_def by (elim rbind_InrE) (auto intro: reg_set_keeps ram_get_byte)

lemma ST_keeps: "well_formed s \<Longrightarrow> bytes_ok s \<Longrightarrow> ST s ra rb = Inr s' \<Longrightarrow> keeps s s'"
  unfolding ST_def by (elim rbind_InrE) (auto intro: ram_set_keeps reg_get_byte)

lemma SP_dec_keeps:
  assumes s: "well_formed s" "bytes_ok s" and g: "reg_get s spr = Inr sp"
    and st: "(if sp = 0 then reg_set s spr 0xFF else reg_set s spr (sp - 1)) = Inr s1"
  shows "keeps s s1"
proof -
  from s g have "byte sp" by (auto intro: reg_get_byte)
  then have "byte (if sp = 0 then 0xFF else sp - 1)" by (simp add: byte_def)
  with s st show ?thesis by (auto split: if_splits intro: reg_set_keeps)
qed

lemma SP_inc_keeps:
  assumes s: "well_formed s" "bytes_ok s" and g: "reg_get s spr = Inr sp"
    and st: "(if sp = 0xFF then reg_set s spr 0 else reg_set s spr (sp + 1)) = Inr s1"
  shows "keeps s s1"
proof -
  from s g have "byte sp" by (auto intro: reg_get_byte)
  then have "byte (if sp = 0xFF then 0 else sp + 1)" by (simp add: byte_def)
  with s st show ?thesis by (auto split: if_splits intro: reg_set_keeps)
qed

lemma PUSH_keeps:
  assumes s: "well_formed s" "bytes_ok s" and v: "\<And>x. val = Some x \<Longrightarrow> byte x"
    and run: "PUSH s r val = Inr s'"
  shows "keeps s s'"
proof -
  from run obtain sp s1 where g: "reg_get s spr = Inr sp"
    and st: "(if sp = 0 then reg_set s spr 0xFF else reg_set s spr (sp - 1)) = Inr s1"
    and rest: "(case val of
         Some v \<Rightarrow> rbind (reg_get s1 spr) (\<lambda>sp1. ram_set s1 sp1 v)
       | None \<Rightarrow>
           (case r of
              None \<Rightarrow> Inl (TypeError, s1)
            | Some r' \<Rightarrow>
                rbind (reg_get s1 r') (\<lambda>v. rbind (reg_get s1 spr) (\<lambda>sp1. ram_set s1 sp1 v)))) = Inr s'"
    unfolding PUSH_def by (elim rbind_InrE)
  have k1: "keeps s s1" using s g st by (rule SP_dec_keeps)
  then have s1: "well_formed s1" "bytes_ok s1" by (simp_all add: keeps_def)
  have "keeps s1 s'"
    using rest s1 v
    by (auto split: option.splits elim!: rbind_InrE intro: ram_set_keeps reg_get_byte)
  with k1 show ?thesis by (rule keeps_trans)
qed

lemma POP_keeps:
  assumes s: "well_formed s" "bytes_ok s" and run: "POP s r ret = Inr (v, s')"
  shows "keeps s s' \<and> (\<forall>x. v = Some x \<longrightarrow> byte x)"
proof -
  from run obtain sp s1 where g: "reg_get s spr = Inr sp"
    and st: "(if sp = 0xFF then reg_set s spr 0 else reg_set s spr (sp + 1)) = Inr s1"
    and rest: "(if ret then rbind (ram_get s1 sp) (\<lambda>v. Inr (Some v, s1))
       else rbind (ram_get s1 sp) (\<lambda>v.
              case r of
                None \<Rightarrow> Inl (TypeError, s1)
              | Some r' \<Rightarrow> rbind (reg_set s1 r' v) (\<lambda>s2. Inr (None, s2)))) = Inr (v, s')"
    unfolding POP_def by (elim rbind_InrE)
  have k1: "keeps s s1" using s g st by (rule SP_inc_keeps)
  then have s1: "well_formed s1" "bytes_ok s1" by (simp_all add: keeps_def)
  from rest obtain x where x: "ram_get s1 sp = Inr x"
    by (auto split: if_splits elim!: rbind_InrE)
  with s1 have bx: "byte x" by (auto intro: ram_get_byte)
  have "keeps s1 s' \<and> (\<forall>x. v = Some x \<longrightarrow> byte x)"
  proof (cases ret)
    case True
    with rest x bx s1 show ?thesis by (auto intro: keeps_refl)
  next
    case False
    with rest x obtain r' where "reg_set s1 r' x = Inr s'" and "v = None"
      by (auto split: option.splits elim!: rbind_InrE)
    with bx s1 show ?thesis by (auto intro: reg_set_keeps)
  qed
  with k1 show ?thesis by (auto intro: keeps_trans)
qed

lemma IRET_loop_keeps:
  "well_formed s \<Longrightarrow> bytes_ok s \<Longrightarrow> IRET_loop s rs = Inr s' \<Longrightarrow> keeps s s'"
proof (induction rs arbitrary: s)
  case Nil
  then show ?case by (auto intro: keeps_refl)
next
  case (Cons r rs)
  from Cons.prems(3) obtain v s1 x s2 where pop: "POP s None True = Inr (v, s1)"
    and v: "v = Some x" and st: "reg_set s1 r x = Inr s2" and rest: "IRET_loop s2 rs = Inr s'"
    by (auto elim!: rbind_InrE split: option.splits)
  from POP_keeps [OF Cons.prems(1,2) pop] v have k1: "keeps s s1" and x: "byte x"
    by simp_all
  from k1 have s1: "well_formed s1" "bytes_ok s1" by (simp_all add: keeps_def)
  from st x s1 have k2: "keeps s1 s2" by (rule reg_set_keeps)
  then have "keeps s2 s'" by (intro Cons.IH rest) (simp_all add: keeps_def)
  with k1 k2 show ?case by (blast intro: keeps_trans)
qed

lemma IRET_keeps:
  assumes s: "well_formed s" "bytes_ok s" and run: "IRET s = Inr s'"
  shows "well_formed s' \<and> bytes_ok s' \<and> ir s' = ir s \<and> byte (pc s')"
proof -
  from run obtain s1 v s2 f w s3 p where loop: "IRET_loop s [6, 5, 4, 3, 2, 1, 0] = Inr s1"
    and pop1: "POP s1 None True = Inr (v, s2)" and v: "v = Some f"
    and pop2: "POP (s2\<lparr>fl := f\<rparr>) None True = Inr (w, s3)" and w: "w = Some p"
    and s': "s' = s3\<lparr>pc := p, interrupts_enabled := True\<rparr>"
    unfolding IRET_def by (auto elim!: rbind_InrE split: option.splits)
  from IRET_loop_keeps [OF s loop] have k1: "keeps s s1" .
  then have s1: "well_formed s1" "bytes_ok s1" by (simp_all add: keeps_def)
  from POP_keeps [OF s1 pop1] v have k2: "keeps s1 s2" and f: "byte f" by simp_all
  from k2 f have s2: "well_formed (s2\<lparr>fl := f\<rparr>)" "bytes_ok (s2\<lparr>fl := f\<rparr>)"
    by (auto simp: keeps_def well_formed_def bytes_ok_def)
  from POP_keeps [OF s2 pop2] w have k3: "keeps (s2\<lparr>fl := f\<rparr>) s3" and p: "byte p" by simp_all
  from k1 k2 k3 p show ?thesis
    by (auto simp: s' keeps_def well_formed_def bytes_ok_def)
qed

lemma JMP_keeps:
  assumes "well_formed s" "bytes_ok s" "JMP s r = Inr s'"
  shows "well_formed s' \<and> bytes_ok s' \<and> ir s' = ir s \<and> byte (pc s')"
  using assms unfolding JMP_def
  by (auto elim!: rbind_InrE simp: well_formed_def bytes_ok_def dest: reg_get_byte [rotated])

lemma cond_jump_keeps:
  assumes "well_formed s" "bytes_ok s"
    and "(if c then rbind (reg_get s r) (\<lambda>v. Inr (s\<lparr>pc := v\<rparr>)) else Inr (s\<lparr>pc := pc s + 2\<rparr>)) = Inr s'"
  shows "well_formed s' \<and> bytes_ok s' \<and> ir s' = ir s \<and> (byte (pc s') \<or> pc s' = pc s + 2)"
  using assms
  by (auto elim!: rbind_InrE simp: well_formed_def bytes_ok_def split: if_splits
      dest: reg_get_byte [rotated])

lemma trace_regs_keeps:
  "well_formed s \<Longrightarrow> bytes_ok s \<Longrightarrow> trace_regs s rs = Inr s' \<Longrightarrow> keeps s s'"
proof (induction rs arbitrary: s)
  case Nil
  then show ?case by (auto intro: keeps_refl)
next
  case (Cons r rs)
  from Cons.prems(3) obtain v where
    rest: "trace_regs (py_print s (codes '' '' @ fmt_02X v) False) rs = Inr s'"
    by (auto elim!: rbind_InrE)
  have k: "keeps s (py_print s (codes '' '' @ fmt_02X v) False)"
    using Cons.prems(1,2) by (rule py_print_keeps)
  then have "keeps (py_print s (codes '' '' @ fmt_02X v) False) s'"
    by (intro Cons.IH rest) (simp_all add: keeps_def)
  with k show ?case by (rule keeps_trans)
qed

lemma trace_keeps:
  assumes s: "well_formed s" "bytes_ok s" and run: "trace s = Inr s'"
  shows "keeps s s'"
proof -
  from run obtain msg s1 where regs: "trace_regs (py_print s msg False) [0, 1, 2, 3, 4, 5, 6, 7] = Inr s1"
    and eq: "Inr (py_print s1 [] True) = (Inr s' :: cpu result)"
    unfolding trace_def by (elim rbind_InrE) (rule that)
  from eq have s': "s' = py_print s1 [] True" by simp
  have k0: "keeps s (py_print s msg False)" using s by (rule py_print_keeps)
  then have k1: "keeps (py_print s msg False) s1"
    by (intro trace_regs_keeps [OF _ _ regs]) (simp_all add: keeps_def)
  then have "keeps s1 s'" unfolding s' by (intro py_print_keeps) (simp_all add: keeps_def)
  with k0 k1 show ?thesis by (blast intro: keeps_trans)
qed

lemma raise_interrupt_keeps:
  "well_formed s \<Longrightarrow> bytes_ok s \<Longrightarrow> n < 8 \<Longrightarrow> raise_interrupt s n = Inr s' \<Longrightarrow> keeps s s'"
  unfolding raise_interrupt_def
  by (elim rbind_InrE) (auto intro: reg_set_keeps byte_set_nth_bit reg_get_byte)

subsection \<open>Dispatch through the tables\<close>

lemma operand_a_ok: "well_formed s \<Longrightarrow> 0 \<le> pc s \<Longrightarrow> operand_a s = Inr a \<Longrightarrow> pc s + 1 \<le> 255"
  by (auto simp: operand_a_def ram_get_def py_index_def well_formed_def split: if_splits)

lemma operand_b_ok: "well_formed s \<Longrightarrow> 0 \<le> pc s \<Longrightarrow> operand_b s = Inr b \<Longrightarrow> pc s + 2 \<le> 255"
  by (auto simp: operand_b_def ram_get_def py_index_def well_formed_def split: if_splits)

lemmas ALU_keeps = ALU_ADD_keeps ALU_ADDi_keeps ALU_SUB_keeps ALU_MUL_keeps ALU_DIV_keeps
  ALU_MOD_keeps ALU_INC_keeps ALU_DEC_keeps ALU_SHL_keeps ALU_SHR_keeps ALU_AND_keeps
  ALU_OR_keeps ALU_XOR_keeps ALU_CMP_keeps

lemma alu_step:
  assumes s: "well_formed s" "bytes_ok s" "0 \<le> pc s"
    and run: "alu s opc = Inr s1" and opc: "opc \<noteq> 0x69"
  shows "keeps s s1 \<and> 0x10 AND opc = 0 \<and> pc s + (1 + drop_bit 6 (0xC0 AND opc)) \<le> 256"
proof (cases "alu_instructions opc")
  case None
  with run show ?thesis
    by (auto simp: alu_def elim!: rbind_InrE)
next
  case (Some f)
  with run have f: "f s = Inr s1" by (simp add: alu_def)
  from Some opc f s show ?thesis
    unfolding alu_instructions_def
    by (auto split: if_splits elim!: rbind_InrE dest: operand_a_ok operand_b_ok intro: ALU_keeps)
qed


lemma POP_state_keeps:
  "POP s r ret = Inr (v, s') \<Longrightarrow> well_formed s \<Longrightarrow> bytes_ok s \<Longrightarrow> keeps s s'"
  by (auto dest: POP_keeps)

lemma PUSH_reg_keeps:
  "well_formed s \<Longrightarrow> bytes_ok s \<Longrightarrow> PUSH s r None = Inr s' \<Longrightarrow> keeps s s'"
  by (rule PUSH_keeps) simp_all

lemmas instr_keeps = NOP_keeps PRA_keeps PRM_keeps PRN_keeps LD_keeps LDI_keeps ST_keeps
  PUSH_reg_keeps POP_state_keeps INT_instr_keeps

lemmas jump_defs = JLT_def JGT_def JEQ_def JLE_def JGE_def JNE_def

lemma instructions_plain:
  assumes s: "well_formed s" "bytes_ok s" "byte (pc s)"
    and tab: "instructions opc = Some f" and run: "f s = Inr s1"
    and opc: "0x10 AND opc = 0"
  shows "keeps s s1 \<and> pc s + (1 + drop_bit 6 (0xC0 AND opc)) \<le> 256"
proof -
  from s have pc0: "0 \<le> pc s" "pc s \<le> 255" by (simp_all add: byte_def)
  from tab opc run s pc0 show ?thesis
    unfolding instructions_def
    by (auto split: if_splits elim!: rbind_InrE dest: operand_a_ok operand_b_ok
        intro: instr_keeps simp: HLT_def)
qed

lemma jump_result:
  assumes run: "JMP s r = Inr s' \<or> JLT s r = Inr s' \<or> JGT s r = Inr s' \<or> JEQ s r = Inr s'
      \<or> JLE s r = Inr s' \<or> JGE s r = Inr s' \<or> JNE s r = Inr s'"
    and s: "well_formed s" "bytes_ok s"
  shows "well_formed s' \<and> bytes_ok s' \<and> ir s' = ir s \<and> (byte (pc s') \<or> pc s' = pc s + 2)"
  using run
proof (elim disjE)
  assume "JMP s r = Inr s'"
  with s show ?thesis by (auto dest: JMP_keeps)
qed (use s in \<open>auto simp only: jump_defs dest!: cond_jump_keeps [OF s]\<close>)

lemma instructions_jump:
  assumes s: "well_formed s" "bytes_ok s" "byte (pc s)"
    and tab: "instructions opc = Some f" and run: "f s = Inr s1"
    and opc: "0x10 AND opc \<noteq> 0" "opc \<noteq> 0x50" "opc \<noteq> 0x11"
  shows "well_formed s1 \<and> bytes_ok s1 \<and> ir s1 = ir s \<and> 0 \<le> pc s1 \<and> pc s1 \<le> 256"
proof -
  define goal where
    "goal \<longleftrightarrow> well_formed s1 \<and> bytes_ok s1 \<and> ir s1 = ir s \<and> 0 \<le> pc s1 \<and> pc s1 \<le> 256"
  from s have pc0: "0 \<le> pc s" "pc s \<le> 255" by (simp_all add: byte_def)
  have int: "INT_instr s a = Inr s1 \<Longrightarrow> goal" for a
    using INT_instr_keeps [OF s(1,2), of a s1] s(3) by (auto simp: keeps_def byte_def goal_def)
  have iret: "IRET s = Inr s1 \<Longrightarrow> goal"
    using IRET_keeps [OF s(1,2), of s1] by (auto simp: byte_def goal_def)
  have jmp: "(JMP s a = Inr s1 \<or> JLT s a = Inr s1 \<or> JGT s a = Inr s1 \<or> JEQ s a = Inr s1
      \<or> JLE s a = Inr s1 \<or> JGE s a = Inr s1 \<or> JNE s a = Inr s1) \<Longrightarrow> operand_a s = Inr a
      \<Longrightarrow> goal" for a
    using jump_result [of s a s1, OF _ s(1,2)] operand_a_ok [OF s(1) pc0(1), of a] pc0
    by (auto simp: byte_def goal_def)
  from tab opc run have goal
    unfolding instructions_def
    by (auto split: if_splits elim!: rbind_InrE intro: int iret jmp)
  then show ?thesis by (simp add: goal_def)
qed

lemma execute_instruction_bytes:
  assumes s: "well_formed s" "bytes_ok s" "byte (pc s)"
    and run: "execute_instruction s = Inr s'"
    and opc: "ir s \<noteq> 0x69" "ir s \<noteq> 0x50" "ir s \<noteq> 0x11"
  shows "well_formed s' \<and> bytes_ok s' \<and> ir s' = ir s \<and> 0 \<le> pc s' \<and> pc s' \<le> 256"
proof -
  from s have pc0: "0 \<le> pc s" by (simp add: byte_def)
  let ?n = "drop_bit 6 (0xC0 AND ir s)"
  from run obtain s1 where body:
      "(if 0x20 AND ir s \<noteq> 0 then alu s (ir s)
        else (case instructions (ir s) of
                Some execute \<Rightarrow> execute s
              | None \<Rightarrow>
                  rbind (trace (py_print s (codes ''Unknown instruction encountered.'') True))
                    (\<lambda>s1. Inl (SystemExit (Some 1), s1)))) = Inr s1"
    and adv: "(if \<not> (0x10 AND ir s1 \<noteq> 0) then Inr (s1\<lparr>pc := pc s1 + (1 + ?n)\<rparr>) else Inr s1)
                = (Inr s' :: cpu result)"
    unfolding execute_instruction_def Let_def by (elim rbind_InrE) (rule that)
  show ?thesis
  proof (cases "0x20 AND ir s \<noteq> 0")
    case True
    with body have "alu s (ir s) = Inr s1" by simp
    from alu_step [OF s(1,2) pc0 this opc(1)]
    have "keeps s s1" "0x10 AND ir s = 0" "pc s + (1 + ?n) \<le> 256"
      by simp_all
    moreover have "0 \<le> ?n" by simp
    ultimately show ?thesis
      using adv pc0 by (auto simp: keeps_def well_formed_def bytes_ok_def)
  next
    case False
    with body obtain f where tab: "instructions (ir s) = Some f" and f: "f s = Inr s1"
      by (cases "instructions (ir s)") (auto elim!: rbind_InrE)
    have n0: "0 \<le> ?n" by simp
    show ?thesis
    proof (cases "0x10 AND ir s = 0")
      case True
      from instructions_plain [OF s tab f True]
      show ?thesis
        using adv pc0 n0 True by (auto simp: keeps_def well_formed_def bytes_ok_def)
    next
      case False
      from instructions_jump [OF s tab f False opc(2,3)]
      show ?thesis
        using adv False by auto
    qed
  qed
qed

lemma push_regs_keeps:
  "well_formed s \<Longrightarrow> bytes_ok s \<Longrightarrow> push_regs s rs = Inr s' \<Longrightarrow> keeps s s'"
proof (induction rs arbitrary: s)
  case Nil
  then show ?case by (auto intro: keeps_refl)
next
  case (Cons r rs)
  from Cons.prems(3) obtain v s1 where v: "reg_get s r = Inr v"
    and push: "PUSH s None (Some v) = Inr s1" and rest: "push_regs s1 rs = Inr s'"
    by (auto elim!: rbind_InrE)
  from Cons.prems(2) v have "byte v" by (rule reg_get_byte)
  then have k1: "keeps s s1"
    using Cons.prems(1,2) push by (intro PUSH_keeps [where val = "Some v"]) auto
  then have "keeps s1 s'"
    by (intro Cons.IH [OF _ _ rest]) (simp_all add: keeps_def)
  with k1 show ?case by (rule keeps_trans)
qed

lemma service_bytes:
  assumes s: "well_formed s" "bytes_ok s" "byte (pc s)" and run: "service s i = Inr s'"
  shows "well_formed s' \<and> bytes_ok s' \<and> ir s' = ir s \<and> byte (pc s')"
proof -
  let ?s1 = "s\<lparr>interrupts_enabled := False\<rparr>"
  have s1: "well_formed ?s1" "bytes_ok ?s1"
    using s by (simp_all add: well_formed_def bytes_ok_def)
  from run obtain v s2 s3 s4 s5 k w where v: "reg_get ?s1 isr = Inr v"
    and clr: "reg_set ?s1 isr (unset_nth_bit v (nat (i - 1))) = Inr s2"
    and p1: "PUSH s2 None (Some (pc s2)) = Inr s3"
    and p2: "PUSH s3 None (Some (fl s3)) = Inr s4"
    and p3: "push_regs s4 [0, 1, 2, 3, 4, 5, 6] = Inr s5"
    and vec: "ram_get s5 (ivt ! k) = Inr w" and s': "s' = s5\<lparr>pc := w\<rparr>"
    unfolding service_def Let_def
    by (elim rbind_InrE) (auto split: option.splits elim!: rbind_InrE)
  from s1(2) v have "byte v" by (rule reg_get_byte)
  then have "byte (unset_nth_bit v (nat (i - 1)))" by (rule byte_unset_nth_bit)
  with clr s1 have k2: "keeps ?s1 s2" by (auto intro: reg_set_keeps)
  then have s2: "well_formed s2" "bytes_ok s2" "byte (pc s2)"
    using s(3) by (simp_all add: keeps_def)
  have k3: "keeps s2 s3"
    using s2 p1 by (intro PUSH_keeps [where val = "Some (pc s2)"]) auto
  then have s3: "well_formed s3" "bytes_ok s3" by (simp_all add: keeps_def)
  then have "byte (fl s3)" by (simp add: bytes_ok_def)
  then have k4: "keeps s3 s4"
    using s3 p2 by (intro PUSH_keeps [where val = "Some (fl s3)"]) auto
  then have s4: "well_formed s4" "bytes_ok s4" by (simp_all add: keeps_def)
  from push_regs_keeps [OF s4 p3] have k5: "keeps s4 s5" .
  then have s5: "bytes_ok s5" by (simp add: keeps_def)
  from s5 vec have "byte w" by (rule ram_get_byte)
  with k2 k3 k4 k5 show ?thesis
    by (auto simp: s' keeps_def well_formed_def bytes_ok_def)
qed

lemma handle_interrupts_bytes:
  assumes s: "well_formed s" "bytes_ok s" "byte (pc s)" and run: "handle_interrupts s = Inr s'"
  shows "well_formed s' \<and> bytes_ok s' \<and> ir s' = ir s \<and> byte (pc s')"
proof -
  from run obtain m where "handle_interrupts_loop s m [1, 2, 3, 4, 5, 6, 7, 8] = Inr s'"
    unfolding handle_interrupts_def by (elim rbind_InrE) (rule that)
  then have "s' = s \<or> (\<exists>i. service s i = Inr s')"
    by (auto simp only: handle_interrupts_loop_find split: option.splits)
  with s show ?thesis
    by (auto dest: service_bytes [OF s])
qed

lemma SP_get: "well_formed s \<Longrightarrow> reg_get s spr = Inr (reg s ! 7)"
  by (simp add: well_formed_def access_defs spr_def)

lemma CALL_bytes:
  assumes s: "well_formed s" "bytes_ok s" and pc: "0 \<le> pc s" "pc s \<le> 253"
    and sp: "reg s ! 7 \<noteq> 0" and run: "CALL s r = Inr s'"
  shows "well_formed s' \<and> bytes_ok s' \<and> ir s' = ir s \<and> byte (pc s')"
proof -
  from run obtain sp s1 sp1 s2 target where g: "reg_get s spr = Inr sp"
    and dec: "reg_set s spr (sp - 1) = Inr s1"
    and st: "ram_set s1 sp1 (pc s1 + 2) = Inr s2"
    and tg: "reg_get s2 r = Inr target" and s': "s' = s2\<lparr>pc := target\<rparr>"
    unfolding CALL_def by (auto elim!: rbind_InrE)
  from g SP_get [OF s(1)] have sp_eq: "sp = reg s ! 7" by simp
  from s(2) g have "byte sp" by (rule reg_get_byte)
  with sp sp_eq have "byte (sp - 1)" by (simp add: byte_def)
  with dec s have k1: "keeps s s1" by (auto intro: reg_set_keeps)
  then have s1: "well_formed s1" "bytes_ok s1" "pc s1 = pc s" by (simp_all add: keeps_def)
  with pc have "byte (pc s1 + 2)" by (simp add: byte_def)
  with st s1 have k2: "keeps s1 s2" by (auto intro: ram_set_keeps)
  then have s2: "bytes_ok s2" by (simp add: keeps_def)
  from s2 tg have "byte target" by (rule reg_get_byte)
  with k1 k2 show ?thesis
    by (auto simp: s' keeps_def well_formed_def bytes_ok_def)
qed

lemma RET_bytes:
  assumes s: "well_formed s" "bytes_ok s" and sp: "reg s ! 7 \<noteq> 0xFF" and run: "RET s = Inr s'"
  shows "well_formed s' \<and> bytes_ok s' \<and> ir s' = ir s \<and> byte (pc s')"
proof -
  from run obtain sp v sp1 where g: "reg_get s spr = Inr sp" and rd: "ram_get s sp = Inr v"
    and g1: "reg_get (s\<lparr>pc := v\<rparr>) spr = Inr sp1"
    and inc: "reg_set (s\<lparr>pc := v\<rparr>) spr (sp1 + 1) = Inr s'"
    unfolding RET_def Let_def by (auto elim!: rbind_InrE)
  have s1: "well_formed (s\<lparr>pc := v\<rparr>)" "bytes_ok (s\<lparr>pc := v\<rparr>)"
    using s by (simp_all add: well_formed_def bytes_ok_def)
  from g1 SP_get [OF s1(1)] have sp1: "sp1 = reg s ! 7" by simp
  from s(2) rd have v: "byte v" by (rule ram_get_byte)
  from s1(2) g1 have "byte sp1" by (rule reg_get_byte)
  with sp sp1 have "byte (sp1 + 1)" by (simp add: byte_def)
  with inc s1 have "keeps (s\<lparr>pc := v\<rparr>) s'" by (auto intro: reg_set_keeps)
  with v show ?thesis by (simp add: keeps_def)
qed

lemma instructions_jump2:
  assumes s: "well_formed s" "bytes_ok s" "byte (pc s)"
    and tab: "instructions opc = Some f" and run: "f s = Inr s1"
    and opc: "0x10 AND opc \<noteq> 0"
    and call: "opc = 0x50 \<longrightarrow> reg s ! 7 \<noteq> 0 \<and> pc s \<noteq> 254"
    and ret: "opc = 0x11 \<longrightarrow> reg s ! 7 \<noteq> 0xFF"
  shows "well_formed s1 \<and> bytes_ok s1 \<and> ir s1 = ir s \<and> 0 \<le> pc s1 \<and> pc s1 \<le> 256"
proof (cases "opc = 0x50 \<or> opc = 0x11")
  case False
  with instructions_jump [OF s tab run opc] show ?thesis by simp
next
  case True
  from s have pc0: "0 \<le> pc s" "pc s \<le> 255" by (simp_all add: byte_def)
  from True show ?thesis
  proof
    assume c: "opc = 0x50"
    with tab run obtain a where a: "operand_a s = Inr a" and r: "CALL s a = Inr s1"
      by (auto simp: instructions_def elim!: rbind_InrE)
    from operand_a_ok [OF s(1) pc0(1) a] call c have "pc s \<le> 253" by simp
    from CALL_bytes [OF s(1,2) pc0(1) this _ r] call c show ?thesis
      by (simp add: byte_def)
  next
    assume c: "opc = 0x11"
    with tab run have r: "RET s = Inr s1"
      by (auto simp: instructions_def)
    from RET_bytes [OF s(1,2) _ r] ret c show ?thesis
      by (simp add: byte_def)
  qed
qed

lemma execute_instruction_regular:
  assumes s: "well_formed s" "bytes_ok s" "byte (pc s)"
    and run: "execute_instruction s = Inr s'"
    and opc: "ir s \<noteq> 0x69"
    and call: "ir s = 0x50 \<longrightarrow> reg s ! 7 \<noteq> 0 \<and> pc s \<noteq> 254"
    and ret: "ir s = 0x11 \<longrightarrow> reg s ! 7 \<noteq> 0xFF"
  shows "well_formed s' \<and> bytes_ok s' \<and> ir s' = ir s \<and> 0 \<le> pc s' \<and> pc s' \<le> 256"
proof (cases "ir s = 0x50 \<or> ir s = 0x11")
  case False
  with execute_instruction_bytes [OF s run opc] show ?thesis by simp
next
  case True
  then have alu: "\<not> 0x20 AND ir s \<noteq> 0" and upd: "0x10 AND ir s \<noteq> 0" by auto
  from run obtain s1 where body:
      "(if 0x20 AND ir s \<noteq> 0 then alu s (ir s)
        else (case instructions (ir s) of
                Some execute \<Rightarrow> execute s
              | None \<Rightarrow>
                  rbind (trace (py_print s (codes ''Unknown instruction encountered.'') True))
                    (\<lambda>s1. Inl (SystemExit (Some 1), s1)))) = Inr s1"
    and adv: "(if \<not> (0x10 AND ir s1 \<noteq> 0)
               then Inr (s1\<lparr>pc := pc s1 + (1 + drop_bit 6 (0xC0 AND ir s))\<rparr>) else Inr s1)
                = (Inr s' :: cpu result)"
    unfolding execute_instruction_def Let_def by (elim rbind_InrE) (rule that)
  from body alu obtain f where tab: "instructions (ir s) = Some f" and f: "f s = Inr s1"
    by (cases "instructions (ir s)") (auto elim!: rbind_InrE)
  from instructions_jump2 [OF s tab f upd call ret] adv upd show ?thesis
    by auto
qed

lemma before_execute_bytes:
  assumes s: "well_formed s" "bytes_ok s" "byte (pc s)"
    and run: "before_execute s trace_cycle = Inr s3"
  shows "well_formed s3 \<and> bytes_ok s3 \<and> byte (pc s3)"
proof -
  from run obtain s1 s2 where
    irq: "(if interrupts_enabled s then handle_interrupts s else Inr s) = Inr s1"
    and fetch: "read_instruction s1 = Inr s2"
    and tr: "(if trace_cycle then trace s2 else Inr s2) = Inr s3"
    unfolding before_execute_def by (elim rbind_InrE) (rule that)
  have s1: "well_formed s1 \<and> bytes_ok s1 \<and> byte (pc s1)"
    using irq s handle_interrupts_bytes [OF s, of s1] by (auto split: if_splits)
  from fetch obtain v where v: "ram_get s1 (pc s1) = Inr v" and s2_eq: "s2 = s1\<lparr>ir := v\<rparr>"
    unfolding read_instruction_def ram_read_def by (auto elim!: rbind_InrE)
  from s1 v have "byte v" by (auto intro: ram_get_byte)
  with s1 have s2: "well_formed s2" "bytes_ok s2" "byte (pc s2)"
    by (simp_all add: s2_eq well_formed_def bytes_ok_def)
  have "keeps s2 s3"
    using tr s2 by (auto split: if_splits intro: trace_keeps keeps_refl)
  with s2 show ?thesis by (simp add: keeps_def)
qed

lemma run_cycle_split:
  "run_cycle s trace_cycle timer_elapsed =
     rbind (before_execute s trace_cycle) (\<lambda>s3.
     rbind (execute_instruction s3) (\<lambda>s4.
       if timer_elapsed then raise_interrupt s4 timer_interrupt_bit else Inr s4))"
  by (simp add: run_cycle_def before_execute_def rbind_def split: sum.splits)

lemma no_fetch_at_256:
  assumes "well_formed s" and "pc s = 256" shows "read_instruction s = Inl (IndexError, s)"
  using assms by (simp add: read_instruction_def ram_read_def access_defs well_formed_def)

lemma run_cycle_in_range:
  assumes inv: "in_range s" and reg: "regular_cycle s trace_cycle"
    and run: "run_cycle s trace_cycle timer_elapsed = Inr s'"
  shows "in_range s'"
proof -
  from inv have s: "well_formed s" "bytes_ok s" and pc: "0 \<le> pc s" "pc s \<le> 256"
    by (simp_all add: in_range_def)
  from run obtain s3 s4 where pre: "before_execute s trace_cycle = Inr s3"
    and exec: "execute_instruction s3 = Inr s4"
    and timer: "(if timer_elapsed then raise_interrupt s4 timer_interrupt_bit else Inr s4) = Inr s'"
    unfolding run_cycle_split by (elim rbind_InrE) (rule that)
  have "pc s \<noteq> 256"
  proof
    assume top: "pc s = 256"
    with reg have "(if interrupts_enabled s then handle_interrupts s else Inr s) = Inr s"
      by (simp add: regular_cycle_def)
    with pre no_fetch_at_256 [OF s(1) top] show False
      by (simp add: before_execute_def)
  qed
  with pc have "byte (pc s)" by (simp add: byte_def)
  from before_execute_bytes [OF s this pre]
  have s3: "well_formed s3" "bytes_ok s3" "byte (pc s3)" by simp_all
  from reg pre have ok: "ir s3 \<noteq> 0x69" "ir s3 = 0x50 \<longrightarrow> reg s3 ! 7 \<noteq> 0 \<and> pc s3 \<noteq> 254"
    "ir s3 = 0x11 \<longrightarrow> reg s3 ! 7 \<noteq> 0xFF"
    by (simp_all add: regular_cycle_def)
  from execute_instruction_regular [OF s3 exec ok]
  have s4: "well_formed s4" "bytes_ok s4" "0 \<le> pc s4" "pc s4 \<le> 256"
    by simp_all
  have "keeps s4 s' \<or> s' = s4"
    using timer raise_interrupt_keeps [OF s4(1,2), of timer_interrupt_bit s']
    by (auto split: if_splits simp: timer_interrupt_bit_def)
  with s4 show ?thesis
    by (auto simp: keeps_def in_range_def)
qed

lemma Keyboard_poll_in_range:
  assumes inv: "in_range s" and c: "c \<le> 255" and run: "Keyboard_poll s c = Inr s'"
  shows "in_range s'"
proof -
  from inv have s: "well_formed s" "bytes_ok s" by (simp_all add: in_range_def)
  from run obtain s1 where st: "ram_set s 0xF4 (int c) = Inr s1"
    and irq: "raise_interrupt s1 interrupt_bit = Inr s'"
    unfolding Keyboard_poll_def by (elim rbind_InrE)
  from c have "byte (int c)" by (simp add: byte_def)
  with st s have k1: "keeps s s1" by (auto intro: ram_set_keeps)
  then have "keeps s1 s'"
    using irq by (intro raise_interrupt_keeps [of s1 interrupt_bit]) (simp_all add: keeps_def interrupt_bit_def)
  with k1 inv show ?thesis by (auto simp: keeps_def in_range_def)
qed

lemma regular_take: "regular s trace_cycle es \<Longrightarrow> regular s trace_cycle (take n es)"
proof (induction es arbitrary: s n)
  case Nil
  then show ?case by simp
next
  case (Cons e es)
  show ?case
  proof (cases n)
    case 0
    then show ?thesis by simp
  next
    case (Suc m)
    with Cons show ?thesis
      by (cases e) (auto split: sum.splits)
  qed
qed

lemma system_run_in_range:
  "in_range s \<Longrightarrow> regular s trace_cycle es \<Longrightarrow> system_run s trace_cycle es = Inr s'
     \<Longrightarrow> in_range s'"
proof (induction es arbitrary: s)
  case Nil
  then show ?case by simp
next
  case (Cons e es)
  show ?case
  proof (cases e)
    case (Cycle t)
    with Cons.prems obtain s1 where step: "run_cycle s trace_cycle t = Inr s1"
      and rest: "system_run s1 trace_cycle es = Inr s'"
      by (auto elim!: rbind_InrE)
    from Cons.prems(2) Cycle step have reg: "regular_cycle s trace_cycle" "regular s1 trace_cycle es"
      by simp_all
    from run_cycle_in_range [OF Cons.prems(1) reg(1) step] have "in_range s1" .
    from Cons.IH [OF this reg(2) rest] show ?thesis .
  next
    case (Key c)
    with Cons.prems obtain s1 where step: "Keyboard_poll s c = Inr s1"
      and rest: "system_run s1 trace_cycle es = Inr s'"
      by (auto elim!: rbind_InrE)
    from Cons.prems(2) Key step have reg: "c \<le> 255" "regular s1 trace_cycle es"
      by simp_all
    from Keyboard_poll_in_range [OF Cons.prems(1) reg(1) step] have "in_range s1" .
    from Cons.IH [OF this reg(2) rest] show ?thesis .
  qed
qed

lemma system_run_cycles: "system_run s trace_cycle (map Cycle ts) = run s trace_cycle ts"
  by (induction ts arbitrary: s) (simp_all add: rbind_def split: sum.splits)

lemmas regular_defs = regular_cycle_def before_execute_def Keyboard_poll_def interrupt_bit_def
  raise_interrupt_def
  set_nth_bit_def timer_interrupt_bit_def

subsection \<open>Every boundary of a regular run\<close>

text \<open>
  Claim C3, as the code has it. Start the system in a state whose \<open>ram\<close> (256 cells), \<open>reg\<close>
  (8 registers), \<open>fl\<close> and \<open>ir\<close> lie in \<open>[0, 255]\<close> and whose \<open>pc\<close> lies in \<open>[0, 256]\<close>, and let
  it run through any sequence of regular events: iterations of the loop that do not dispatch
  an interrupt at \<open>pc = 256\<close> and do not execute \<open>NOT\<close>, \<open>CALL\<close> with \<open>SP = 0\<close> or at
  \<open>pc = 254\<close>, or \<open>RET\<close> with \<open>SP = 0xFF\<close>, and keyboard characters below 256. Then at every
  boundary reached (after any number \<open>n\<close> of the events) every value in \<open>ram\<close> and \<open>reg\<close>, and
  \<open>fl\<close> and \<open>ir\<close>, lie in \<open>[0, 255]\<close>, and \<open>pc\<close> lies in \<open>[0, 256]\<close>: the \<open>pc\<close> advance and the
  branch not taken add to \<open>pc\<close> without wrapping.
\<close>

theorem boundaries_in_range:
  assumes "well_formed s" and "bytes_ok s" and "0 \<le> pc s" and "pc s \<le> 256"
    and "regular s trace_cycle es"
    and "system_run s trace_cycle (take n es) = Inr s'"
  shows "well_formed s' \<and> bytes_ok s' \<and> 0 \<le> pc s' \<and> pc s' \<le> 256"
proof -
  from assms(1-4) have "in_range s" by (simp add: in_range_def)
  moreover from assms(5) have "regular s trace_cycle (take n es)" by (rule regular_take)
  ultimately have "in_range s'" using assms(6) by (rule system_run_in_range)
  then show ?thesis by (simp add: in_range_def)
qed

theorem boundaries_in_range_witness:
  "(\<exists>s'. system_run (loaded [0x82, 0, 8, 0x50, 0, 0x01, 0, 0, 0x11]) False
            [Cycle False, Cycle False, Key 65, Cycle True] = Inr s'
         \<and> well_formed s' \<and> bytes_ok s' \<and> 0 \<le> pc s' \<and> pc s' \<le> 256)
   \<and> (\<exists>s'. system_run (loaded [0x82, 0, 0xFF, 0x54, 0]) False
              [Cycle False, Cycle False, Cycle False] = Inr s'
           \<and> well_formed s' \<and> bytes_ok s' \<and> pc s' = 256)"
proof -
  let ?s = "loaded [0x82, 0, 8, 0x50, 0, 0x01, 0, 0, 0x11]"
  let ?es = "[Cycle False, Cycle False, Key 65, Cycle True]"
  have h: "well_formed ?s" "bytes_ok ?s" "0 \<le> pc ?s" "pc ?s \<le> 256"
    by (simp_all add: loaded_def well_formed_def bytes_ok_def byte_def CPU_init_reg list_all_iff)
  have reg: "regular ?s False ?es"
    by (simp add: loaded_def CPU_init_reg regular_defs cycle_defs access_defs LDI_def CALL_def
        RET_def)
  have "\<exists>s'. system_run ?s False (take 4 ?es) = Inr s'"
    by (simp add: loaded_def CPU_init_reg regular_defs cycle_defs access_defs LDI_def CALL_def
        RET_def)
  then obtain s' where run: "system_run ?s False (take 4 ?es) = Inr s'" ..
  let ?t = "loaded [0x82, 0, 0xFF, 0x54, 0]"
  let ?fs = "[Cycle False, Cycle False, Cycle False, Cycle False]"
  have h': "well_formed ?t" "bytes_ok ?t" "0 \<le> pc ?t" "pc ?t \<le> 256"
    by (simp_all add: loaded_def well_formed_def bytes_ok_def byte_def CPU_init_reg list_all_iff)
  have reg': "regular ?t False ?fs"
    by (simp add: loaded_def CPU_init_reg regular_defs cycle_defs access_defs LDI_def JMP_def
        NOP_def)
  have "\<exists>t'. system_run ?t False (take 3 ?fs) = Inr t' \<and> pc t' = 256"
    by (simp add: loaded_def CPU_init_reg regular_defs cycle_defs access_defs LDI_def JMP_def
        NOP_def)
  then obtain t' where run': "system_run ?t False (take 3 ?fs) = Inr t'" and top: "pc t' = 256"
    by blast
  from boundaries_in_range [OF h reg run] boundaries_in_range [OF h' reg' run'] run run' top
  show ?thesis
    by simp
qed

text \<open>
  The program \<open>LDI R0,0xFF; JMP R0\<close> reaches \<open>pc = 255\<close>, where the cell holds \<open>NOP\<close>; after
  that third cycle \<open>pc\<close> is 256.
\<close>

theorem pc_leaves_byte_range:
  "rbind (run (loaded [0x82, 0, 0xFF, 0x54, 0]) False [False, False, False])
     (\<lambda>s. Inr (pc s, ir s)) = Inr (256, 0)"
  by (simp add: loaded_def CPU_init_reg cycle_defs access_defs LDI_def JMP_def NOP_def)

text \<open>
  The events left out of the regular runs, where the unwrapped \<open>pc\<close> or an unmasked character
  reaches \<open>ram\<close>. With interrupt 0 enabled, the timer firing in the cycle that leaves
  \<open>pc = 256\<close> makes the next cycle dispatch there and push 256; a \<open>CALL\<close> at \<open>pc = 254\<close>
  pushes the return address 256; a character of code point \<open>0x100\<close> is stored as 256.
\<close>

lemma dispatch_pushes_unwrapped_pc:
  "rbind (run (loaded [0x82, 5, 1, 0x82, 0, 0xFF, 0x54, 0]) False [False, False, False, True, False])
     (\<lambda>s. Inr (ram s ! 0xF3, ir s, pc s)) = Inr (256, 0x82, 3)"
  by (simp add: loaded_def CPU_init_reg cycle_defs access_defs LDI_def JMP_def NOP_def
      raise_interrupt_def set_nth_bit_def timer_interrupt_bit_def stack_defs)

lemma CALL_pushes_unwrapped_pc:
  "rbind (run_cycle (CPU_init\<lparr>pc := 254, ram := (replicate 256 0)[254 := 0x50]\<rparr>) False False)
     (\<lambda>s. Inr (ram s ! 0xF3, reg s ! 7, pc s)) = Inr (256, 0xF3, 0)"
  by (simp add: CPU_init_reg cycle_defs access_defs CALL_def)

lemma Keyboard_poll_unmasked:
  "rbind (Keyboard_poll CPU_init 0x100) (\<lambda>s. Inr (ram s ! 0xF4, reg s ! 6)) = Inr (256, 2)"
  by (simp add: CPU_init_reg Keyboard_poll_def interrupt_bit_def raise_interrupt_def
      set_nth_bit_def access_defs isr_def)

text \<open>
  \<open>_ALU_NOT\<close> stores \<open>~reg[r]\<close> without the mask \<open>& 0xFF\<close> that every other ALU operation
  applies: \<open>NOT R0\<close> on a fresh machine leaves \<open>reg[0] = -1\<close>. This is a defect of the code,
  not part of the statement above.
\<close>

lemma ALU_NOT_unmasked:
  "rbind (run (loaded [0x69, 0]) False [False]) (\<lambda>s. Inr (reg s ! 0)) = Inr (- 1)"
  by (simp add: loaded_def CPU_init_reg cycle_defs access_defs ALU_NOT_def)

end
